theory Spec2Isabelle
  imports Main
begin

section \<open>Collaborators and failures\<close>

text \<open>
  The ways a call can fail to return a value: the Python exceptions the modelled code can
  raise, and \<open>Blocked\<close> for a collective operation that some rank of the group never
  joins (that rank raised before reaching it), so that the caller never gets past it.
\<close>

datatype failure = AttributeError | IndexError | UnboundLocalError | OverflowError | Blocked

text \<open>
  What \<open>Manager.__init__\<close> reads of a solver object: the attributes \<open>nNodes\<close>,
  \<open>nPhysicalNodes\<close>, \<open>haloNodeList\<close> (a dict, of which only the keys are read) and the
  method \<open>getNodalIndex\<close>. An absent solver is Python's \<open>None\<close>, here \<open>None\<close>.
\<close>

record solver =
  nNodes :: int
  nPhysicalNodes :: int
  haloNodeList :: "int \<rightharpoonup> int"
  getNodalIndex :: "int \<Rightarrow> int"

text \<open>The pair \<open>(FluidSolver, SolidSolver)\<close> one process passes to the constructor.\<close>

type_synonym proc = "solver option \<times> solver option"

text \<open>
  The constructor runs on every rank of the process group. \<open>world\<close> lists the arguments
  of all ranks in rank order, \<open>rank\<close> is the position of the process under study
  (\<open>rank < length world\<close>), and \<open>withMPI\<close> tells whether a communicator was passed
  (\<open>mpiComm != None\<close>). With a communicator \<open>myid = rank\<close> and \<open>mpiSize = length world\<close>;
  without one \<open>myid = 0\<close>, \<open>mpiSize = 1\<close> and the process sees its own arguments only.
\<close>

definition myid_of :: "bool \<Rightarrow> nat \<Rightarrow> nat" where
  "myid_of withMPI rank = (if withMPI then rank else 0)"

definition mpiSize_of :: "bool \<Rightarrow> proc list \<Rightarrow> nat" where
  "mpiSize_of withMPI world = (if withMPI then length world else 1)"

text \<open>Python's \<open>range(n)\<close>: empty when \<open>n \<le> 0\<close>.\<close>

definition range_py :: "int \<Rightarrow> int list" where
  "range_py n = map int [0..<nat n]"

text \<open>Subscripting a Python list, \<open>xs[i]\<close>, where \<open>-len(xs) \<le> i < 0\<close> reads from the back.\<close>

definition py_index :: "'a list \<Rightarrow> int \<Rightarrow> failure + 'a" where
  "py_index xs i =
     (if 0 \<le> i \<and> i < int (length xs) then Inr (xs ! nat i)
      else if i < 0 \<and> - int (length xs) \<le> i then Inr (xs ! nat (int (length xs) + i))
      else Inl IndexError)"

text \<open>
  An array made by \<open>np.zeros(n, dtype=int)\<close> holds signed 64-bit integers. Storing a Python
  integer outside that range into an element, \<open>a[i] = v\<close>, raises \<open>OverflowError\<close>.
\<close>

definition int64 :: "int \<Rightarrow> bool" where
  "int64 v = (- (2 ^ 63) \<le> v \<and> v < 2 ^ 63)"

definition np_setitem :: "int list \<Rightarrow> nat \<Rightarrow> int \<Rightarrow> failure + int list" where
  "np_setitem a i v =
     (if \<not> i < length a then Inl IndexError
      else if \<not> int64 v then Inl OverflowError
      else Inr (a[i := v]))"

text \<open>
  Modelled from the spec: the collective helpers \<open>mpiAllGather\<close> and \<open>mpiAllReduce\<close> are
  called by the constructor and defined outside the source files at hand. All-gather
  collects one value from every process into a sequence indexed by rank; all-reduce-sum
  sums one value over all processes; without a communicator the reduction is the identity.
  A contribution is a function of the contributing rank and of that rank's arguments; the
  reduction takes the contributions of all ranks and the caller's own. The communicator's
  own \<open>allgather\<close> (of the MPI binding) gathers objects the same way. \<open>mpiBarrier\<close> and
  \<open>mpiPrint\<close> leave every attribute as it is and have no counterpart.
\<close>

definition allgather :: "proc list \<Rightarrow> (nat \<Rightarrow> proc \<Rightarrow> 'a) \<Rightarrow> 'a list" where
  "allgather world contrib = map (\<lambda>i. contrib i (world ! i)) [0..<length world]"

definition mpiAllReduce :: "bool \<Rightarrow> int list \<Rightarrow> int \<Rightarrow> int" where
  "mpiAllReduce withMPI contributions own = (if withMPI then sum_list contributions else own)"

section \<open>Manager construction, stage by stage\<close>

subsection \<open>Presence flags and node counts (lines 75 to 110)\<close>

definition haveSolver :: "solver option \<Rightarrow> bool" where
  "haveSolver S = (case S of None \<Rightarrow> False | Some _ \<Rightarrow> True)"

definition nLocalInterfaceNodes :: "solver option \<Rightarrow> int" where
  "nLocalInterfaceNodes S = (case S of None \<Rightarrow> 0 | Some s \<Rightarrow> nNodes s)"

definition haveInterface :: "solver option \<Rightarrow> bool" where
  "haveInterface S = (case S of None \<Rightarrow> False | Some s \<Rightarrow> nNodes s \<noteq> 0)"

subsection \<open>Role sets (lines 113 to 142)\<close>

definition sendBuf :: "bool \<Rightarrow> nat \<Rightarrow> int" where
  "sendBuf have myid = (if have then int myid else - 1)"

definition processors :: "bool \<Rightarrow> proc list \<Rightarrow> (proc \<Rightarrow> bool) \<Rightarrow> int list" where
  "processors withMPI world have =
     (if withMPI
      then filter (\<lambda>r. r \<noteq> - 1) (allgather world (\<lambda>myid p. sendBuf (have p) myid))
      else replicate 1 0)"

definition fluidSolverProcessors_of :: "bool \<Rightarrow> proc list \<Rightarrow> int list" where
  "fluidSolverProcessors_of withMPI world = processors withMPI world (\<lambda>p. haveSolver (fst p))"

definition solidSolverProcessors_of :: "bool \<Rightarrow> proc list \<Rightarrow> int list" where
  "solidSolverProcessors_of withMPI world = processors withMPI world (\<lambda>p. haveSolver (snd p))"

definition fluidInterfaceProcessors_of :: "bool \<Rightarrow> proc list \<Rightarrow> int list" where
  "fluidInterfaceProcessors_of withMPI world =
     processors withMPI world (\<lambda>p. haveInterface (fst p))"

definition solidInterfaceProcessors_of :: "bool \<Rightarrow> proc list \<Rightarrow> int list" where
  "solidInterfaceProcessors_of withMPI world =
     processors withMPI world (\<lambda>p. haveInterface (snd p))"

subsection \<open>Halo sets (lines 145 to 154)\<close>

text \<open>
  The local halo dicts before the exchange. The fluid one is read without a guard; the
  solid one only when \<open>myid in self.solidSolverProcessors\<close>, and stays \<open>{}\<close> otherwise.
  Reading the attribute of an absent solver raises: \<open>Manager_init\<close> below returns the failure,
  and the value given here for that case is the one the field was initialised with.
\<close>

definition haloNodes :: "solver option \<Rightarrow> (int \<rightharpoonup> int)" where
  "haloNodes S = (case S of None \<Rightarrow> Map.empty | Some s \<Rightarrow> haloNodeList s)"

definition solidHaloNodes_local :: "bool \<Rightarrow> proc list \<Rightarrow> nat \<Rightarrow> (int \<rightharpoonup> int)" where
  "solidHaloNodes_local withMPI world rank =
     (if int (myid_of withMPI rank) \<in> set (solidSolverProcessors_of withMPI world)
      then haloNodes (snd (world ! rank)) else Map.empty)"

definition fluidHaloNodesList_of :: "bool \<Rightarrow> proc list \<Rightarrow> (int \<rightharpoonup> int) list" where
  "fluidHaloNodesList_of withMPI world =
     (if withMPI then allgather world (\<lambda>myid p. haloNodes (fst p)) else [Map.empty])"

definition solidHaloNodesList_of :: "bool \<Rightarrow> proc list \<Rightarrow> (int \<rightharpoonup> int) list" where
  "solidHaloNodesList_of withMPI world =
     (if withMPI then allgather world (\<lambda>myid p. solidHaloNodes_local True world myid)
      else [Map.empty])"

subsection \<open>Physical node counts, totals and distribution vectors (lines 156 to 179)\<close>

definition physicalNodes :: "solver option \<Rightarrow> int" where
  "physicalNodes S = (case S of None \<Rightarrow> 0 | Some s \<Rightarrow> nPhysicalNodes s)"

definition nLocalFluidInterfacePhysicalNodes_of :: "proc list \<Rightarrow> nat \<Rightarrow> int" where
  "nLocalFluidInterfacePhysicalNodes_of world rank = physicalNodes (fst (world ! rank))"

definition nLocalSolidInterfacePhysicalNodes_of :: "bool \<Rightarrow> proc list \<Rightarrow> nat \<Rightarrow> int" where
  "nLocalSolidInterfacePhysicalNodes_of withMPI world rank =
     (if int (myid_of withMPI rank) \<in> set (solidSolverProcessors_of withMPI world)
      then physicalNodes (snd (world ! rank)) else 0)"

definition nFluidInterfaceNodes_of :: "bool \<Rightarrow> proc list \<Rightarrow> nat \<Rightarrow> int" where
  "nFluidInterfaceNodes_of withMPI world rank =
     mpiAllReduce withMPI (allgather world (\<lambda>myid p. nLocalInterfaceNodes (fst p)))
       (nLocalInterfaceNodes (fst (world ! rank)))"

definition nFluidInterfacePhysicalNodes_of :: "bool \<Rightarrow> proc list \<Rightarrow> nat \<Rightarrow> int" where
  "nFluidInterfacePhysicalNodes_of withMPI world rank =
     mpiAllReduce withMPI
       (allgather world (\<lambda>myid p. nLocalFluidInterfacePhysicalNodes_of world myid))
       (nLocalFluidInterfacePhysicalNodes_of world rank)"

definition nSolidInterfaceNodes_of :: "bool \<Rightarrow> proc list \<Rightarrow> nat \<Rightarrow> int" where
  "nSolidInterfaceNodes_of withMPI world rank =
     mpiAllReduce withMPI (allgather world (\<lambda>myid p. nLocalInterfaceNodes (snd p)))
       (nLocalInterfaceNodes (snd (world ! rank)))"

definition nSolidInterfacePhysicalNodes_of :: "bool \<Rightarrow> proc list \<Rightarrow> nat \<Rightarrow> int" where
  "nSolidInterfacePhysicalNodes_of withMPI world rank =
     mpiAllReduce withMPI
       (allgather world (\<lambda>myid p. nLocalSolidInterfacePhysicalNodes_of True world myid))
       (nLocalSolidInterfacePhysicalNodes_of False world rank)"

text \<open>
  The distribution vectors. With a communicator they are the gathered local physical
  counts (lines 175 and 176). Without one, the totals are stored into element 0 of the
  arrays \<open>np.zeros(mpiSize, dtype=int)\<close> of lines 172 and 173 (lines 178 and 179), which
  raises when a total does not fit.
\<close>

definition fluidDistribution_gathered :: "proc list \<Rightarrow> int list" where
  "fluidDistribution_gathered world =
     allgather world (\<lambda>myid p. nLocalFluidInterfacePhysicalNodes_of world myid)"

definition solidDistribution_gathered :: "proc list \<Rightarrow> int list" where
  "solidDistribution_gathered world =
     allgather world (\<lambda>myid p. nLocalSolidInterfacePhysicalNodes_of True world myid)"

definition fluidDistribution_of :: "bool \<Rightarrow> proc list \<Rightarrow> nat \<Rightarrow> failure + int list" where
  "fluidDistribution_of withMPI world rank =
     (if withMPI then Inr (fluidDistribution_gathered world)
      else np_setitem (replicate (mpiSize_of withMPI world) 0) 0
             (nFluidInterfacePhysicalNodes_of withMPI world rank))"

definition solidDistribution_of :: "bool \<Rightarrow> proc list \<Rightarrow> nat \<Rightarrow> failure + int list" where
  "solidDistribution_of withMPI world rank =
     (if withMPI then Inr (solidDistribution_gathered world)
      else np_setitem (replicate (mpiSize_of withMPI world) 0) 0
             (nSolidInterfacePhysicalNodes_of withMPI world rank))"

subsection \<open>Global index ranges (lines 181 to 213)\<close>

text \<open>
  The loop \<open>for iProc in range(myid): globalIndexStart += distribution[iProc]\<close>, then the
  pair each rank contributes, and the gathered list. \<open>setGlobalIndexing\<close>, inherited from
  the native base class, receives the gathered list and changes no attribute kept here.
\<close>

definition globalIndexStart_loop :: "int list \<Rightarrow> nat \<Rightarrow> int" where
  "globalIndexStart_loop distribution myid =
     fold (\<lambda>iProc globalIndexStart. globalIndexStart + distribution ! iProc) [0..<myid] 0"

definition fluidGlobalIndexRange_temp :: "proc list \<Rightarrow> nat \<Rightarrow> int \<times> int" where
  "fluidGlobalIndexRange_temp world myid =
     (if int myid \<in> set (fluidInterfaceProcessors_of True world)
      then (let globalIndexStart = globalIndexStart_loop (fluidDistribution_gathered world) myid;
                globalIndexStop =
                  globalIndexStart + nLocalFluidInterfacePhysicalNodes_of world myid - 1
            in (globalIndexStart, globalIndexStop))
      else (0, 0))"

definition solidGlobalIndexRange_temp :: "proc list \<Rightarrow> nat \<Rightarrow> int \<times> int" where
  "solidGlobalIndexRange_temp world myid =
     (if int myid \<in> set (solidInterfaceProcessors_of True world)
      then (let globalIndexStart = globalIndexStart_loop (solidDistribution_gathered world) myid;
                globalIndexStop = globalIndexStart + nLocalInterfaceNodes (snd (world ! myid)) - 1
            in (globalIndexStart, globalIndexStop))
      else (0, 0))"

definition fluidGlobalIndexRange_of :: "bool \<Rightarrow> proc list \<Rightarrow> nat \<Rightarrow> (int \<times> int) list" where
  "fluidGlobalIndexRange_of withMPI world rank =
     (if withMPI then allgather world (\<lambda>myid p. fluidGlobalIndexRange_temp world myid)
      else [(0, nLocalFluidInterfacePhysicalNodes_of world rank - 1)])"

definition solidGlobalIndexRange_of :: "bool \<Rightarrow> proc list \<Rightarrow> nat \<Rightarrow> (int \<times> int) list" where
  "solidGlobalIndexRange_of withMPI world rank =
     (if withMPI then allgather world (\<lambda>myid p. solidGlobalIndexRange_temp world myid)
      else [(0, nSolidInterfacePhysicalNodes_of withMPI world rank - 1)])"

subsection \<open>The accessor \<open>getGlobalIndex\<close> (lines 250 to 261)\<close>

text \<open>
  The method reads the two range lists of \<open>self\<close> and nothing else. A \<open>domain\<close> that is
  neither \<open>'fluid'\<close> nor \<open>'solid'\<close> leaves \<open>globalStartIndex\<close> unbound.
\<close>

definition getGlobalIndex_in ::
  "(int \<times> int) list \<Rightarrow> (int \<times> int) list \<Rightarrow> string \<Rightarrow> int \<Rightarrow> int \<Rightarrow> failure + int" where
  "getGlobalIndex_in fluidRange solidRange domain iProc iLocalVertex =
     (if domain = ''fluid''
      then (case py_index fluidRange iProc of
              Inl e \<Rightarrow> Inl e
            | Inr r \<Rightarrow> Inr (fst r + iLocalVertex))
      else if domain = ''solid''
      then (case py_index solidRange iProc of
              Inl e \<Rightarrow> Inl e
            | Inr r \<Rightarrow> Inr (fst r + iLocalVertex))
      else Inl UnboundLocalError)"

subsection \<open>Local maps and their merge (lines 215 to 248)\<close>

text \<open>
  The loop over the local vertex positions. Each pass reads the halo dict of the own rank,
  \<open>self.fluidHaloNodesList[myid]\<close> (here \<open>haloLookup\<close>, the outcome of that subscript); a
  node identifier among its keys is passed over; any other receives
  \<open>getGlobalIndex(domain, myid, localIndex)\<close> and \<open>localIndex\<close> advances.
\<close>

fun indexing_loop ::
  "(int \<Rightarrow> int) \<Rightarrow> failure + (int \<rightharpoonup> int) \<Rightarrow> (int \<Rightarrow> failure + int) \<Rightarrow> int list \<Rightarrow>
   (int \<rightharpoonup> int) \<Rightarrow> int \<Rightarrow> failure + (int \<rightharpoonup> int)" where
  "indexing_loop nodalIndex haloLookup globalIndex [] temp localIndex = Inr temp"
| "indexing_loop nodalIndex haloLookup globalIndex (iVertex # rest) temp localIndex =
     (let nodeIndex = nodalIndex iVertex
      in case haloLookup of
           Inl e \<Rightarrow> Inl e
         | Inr halo \<Rightarrow>
             if nodeIndex \<in> dom halo
             then indexing_loop nodalIndex haloLookup globalIndex rest temp localIndex
             else (case globalIndex localIndex of
                     Inl e \<Rightarrow> Inl e
                   | Inr g \<Rightarrow>
                       indexing_loop nodalIndex haloLookup globalIndex rest
                         (temp(nodeIndex \<mapsto> g)) (localIndex + 1)))"

definition fluidIndexing_temp_of :: "bool \<Rightarrow> proc list \<Rightarrow> nat \<Rightarrow> failure + (int \<rightharpoonup> int)" where
  "fluidIndexing_temp_of withMPI world rank =
     (let myid = myid_of withMPI rank
      in case fst (world ! rank) of
           None \<Rightarrow> Inl AttributeError
         | Some FluidSolver \<Rightarrow>
             indexing_loop (getNodalIndex FluidSolver)
               (py_index (fluidHaloNodesList_of withMPI world) (int myid))
               (getGlobalIndex_in (fluidGlobalIndexRange_of withMPI world rank)
                  (solidGlobalIndexRange_of withMPI world rank) ''fluid'' (int myid))
               (range_py (nLocalInterfaceNodes (fst (world ! rank)))) Map.empty 0)"

text \<open>
  On the solid side the loop runs over \<open>range(self.nLocalSolidInterfaceNodes)\<close>, which is
  empty when the solid solver is absent, so that \<open>SolidSolver.getNodalIndex\<close> is not reached.
\<close>

definition solidIndexing_temp_of :: "bool \<Rightarrow> proc list \<Rightarrow> nat \<Rightarrow> failure + (int \<rightharpoonup> int)" where
  "solidIndexing_temp_of withMPI world rank =
     (let myid = myid_of withMPI rank
      in case snd (world ! rank) of
           None \<Rightarrow> Inr Map.empty
         | Some SolidSolver \<Rightarrow>
             indexing_loop (getNodalIndex SolidSolver)
               (py_index (solidHaloNodesList_of withMPI world) (int myid))
               (getGlobalIndex_in (fluidGlobalIndexRange_of withMPI world rank)
                  (solidGlobalIndexRange_of withMPI world rank) ''solid'' (int myid))
               (range_py (nLocalInterfaceNodes (snd (world ! rank)))) Map.empty 0)"

text \<open>
  The gathered partial maps: a rank whose own loop raised never contributes, and the
  gather does not return.
\<close>

fun gathered :: "(failure + 'a) list \<Rightarrow> failure + 'a list" where
  "gathered [] = Inr []"
| "gathered (Inl e # rs) = Inl Blocked"
| "gathered (Inr x # rs) = (case gathered rs of Inl e \<Rightarrow> Inl e | Inr xs \<Rightarrow> Inr (x # xs))"

text \<open>
  The merge \<open>for ii in range(len(temp)): for key, value in temp[ii].items():
  indexing[key] = value\<close>: the entries of a later rank replace those of an earlier one.
\<close>

definition merge_indexing :: "(int \<rightharpoonup> int) list \<Rightarrow> (int \<rightharpoonup> int)" where
  "merge_indexing temps = fold (\<lambda>temp indexing. indexing ++ temp) temps Map.empty"

definition indexing_of ::
  "bool \<Rightarrow> proc list \<Rightarrow> (nat \<Rightarrow> failure + (int \<rightharpoonup> int)) \<Rightarrow> (int \<rightharpoonup> int) \<Rightarrow> failure + (int \<rightharpoonup> int)" where
  "indexing_of withMPI world temp_of own =
     (if withMPI
      then (case gathered (allgather world (\<lambda>myid p. temp_of myid)) of
              Inl e \<Rightarrow> Inl e
            | Inr temps \<Rightarrow> Inr (merge_indexing temps))
      else Inr own)"

subsection \<open>The constructed manager\<close>

text \<open>
  The attributes of the manager that the accessors return. \<open>nDim\<close>, \<open>computationType\<close>,
  \<open>withFsi\<close>, \<open>withCht\<close> and \<open>mpiComm\<close> are stored as passed and read by nothing modelled
  here; they are left out.
\<close>

record manager =
  haveFluidSolver :: bool
  nLocalFluidInterfaceNodes :: int
  nLocalFluidInterfacePhysicalNodes :: int
  haveFluidInterface :: bool
  fluidHaloNodesList :: "(int \<rightharpoonup> int) list"
  fluidIndexing :: "int \<rightharpoonup> int"
  haveSolidSolver :: bool
  nLocalSolidInterfaceNodes :: int
  nLocalSolidInterfacePhysicalNodes :: int
  haveSolidInterface :: bool
  solidHaloNodesList :: "(int \<rightharpoonup> int) list"
  solidIndexing :: "int \<rightharpoonup> int"
  fluidSolverProcessors :: "int list"
  solidSolverProcessors :: "int list"
  fluidInterfaceProcessors :: "int list"
  solidInterfaceProcessors :: "int list"
  nFluidInterfaceNodes :: int
  nFluidInterfacePhysicalNodes :: int
  nSolidInterfaceNodes :: int
  nSolidInterfacePhysicalNodes :: int
  fluidPhysicalInterfaceNodesDistribution :: "int list"
  solidPhysicalInterfaceNodesDistribution :: "int list"
  fluidGlobalIndexRange :: "(int \<times> int) list"
  solidGlobalIndexRange :: "(int \<times> int) list"

definition getGlobalIndex :: "manager \<Rightarrow> string \<Rightarrow> int \<Rightarrow> int \<Rightarrow> failure + int" where
  "getGlobalIndex self domain iProc iLocalVertex =
     getGlobalIndex_in (fluidGlobalIndexRange self) (solidGlobalIndexRange self)
       domain iProc iLocalVertex"

text \<open>
  The constructor. It raises \<open>AttributeError\<close> at line 146 when \<open>FluidSolver\<close> is \<open>None\<close>, and
  at line 148 when \<open>SolidSolver\<close> is \<open>None\<close> although \<open>myid\<close> is among the solid solver
  processes. With a communicator, a rank that raised at line 146 never reaches the
  \<open>allgather\<close> of line 150, and no rank gets past that call. Without a communicator,
  lines 178 and 179 raise \<open>OverflowError\<close> when a total is outside the 64-bit range.
\<close>

definition Manager_init :: "bool \<Rightarrow> proc list \<Rightarrow> nat \<Rightarrow> failure + manager" where
  "Manager_init withMPI world rank =
     (let FluidSolver = fst (world ! rank);
          SolidSolver = snd (world ! rank);
          myid = myid_of withMPI rank
      in if \<not> haveSolver FluidSolver then Inl AttributeError
         else if int myid \<in> set (solidSolverProcessors_of withMPI world) \<and> \<not> haveSolver SolidSolver
         then Inl AttributeError
         else if withMPI \<and> list_ex (\<lambda>p. \<not> haveSolver (fst p)) world then Inl Blocked
         else (case fluidDistribution_of withMPI world rank of
                 Inl e \<Rightarrow> Inl e
               | Inr fluidDistribution \<Rightarrow>
           (case solidDistribution_of withMPI world rank of
                 Inl e \<Rightarrow> Inl e
               | Inr solidDistribution \<Rightarrow>
           (case fluidIndexing_temp_of withMPI world rank of
                 Inl e \<Rightarrow> Inl e
               | Inr fluidIndexing_temp \<Rightarrow>
           (case solidIndexing_temp_of withMPI world rank of
                 Inl e \<Rightarrow> Inl e
               | Inr solidIndexing_temp \<Rightarrow>
           (case indexing_of withMPI world (solidIndexing_temp_of True world) solidIndexing_temp of
                 Inl e \<Rightarrow> Inl e
               | Inr solidIndexing' \<Rightarrow>
           (case indexing_of withMPI world (fluidIndexing_temp_of True world) fluidIndexing_temp of
                 Inl e \<Rightarrow> Inl e
               | Inr fluidIndexing' \<Rightarrow>
                   Inr \<lparr> haveFluidSolver = haveSolver FluidSolver,
                         nLocalFluidInterfaceNodes = nLocalInterfaceNodes FluidSolver,
                         nLocalFluidInterfacePhysicalNodes =
                           nLocalFluidInterfacePhysicalNodes_of world rank,
                         haveFluidInterface = haveInterface FluidSolver,
                         fluidHaloNodesList = fluidHaloNodesList_of withMPI world,
                         fluidIndexing = fluidIndexing',
                         haveSolidSolver = haveSolver SolidSolver,
                         nLocalSolidInterfaceNodes = nLocalInterfaceNodes SolidSolver,
                         nLocalSolidInterfacePhysicalNodes =
                           nLocalSolidInterfacePhysicalNodes_of withMPI world rank,
                         haveSolidInterface = haveInterface SolidSolver,
                         solidHaloNodesList = solidHaloNodesList_of withMPI world,
                         solidIndexing = solidIndexing',
                         fluidSolverProcessors = fluidSolverProcessors_of withMPI world,
                         solidSolverProcessors = solidSolverProcessors_of withMPI world,
                         fluidInterfaceProcessors = fluidInterfaceProcessors_of withMPI world,
                         solidInterfaceProcessors = solidInterfaceProcessors_of withMPI world,
                         nFluidInterfaceNodes = nFluidInterfaceNodes_of withMPI world rank,
                         nFluidInterfacePhysicalNodes =
                           nFluidInterfacePhysicalNodes_of withMPI world rank,
                         nSolidInterfaceNodes = nSolidInterfaceNodes_of withMPI world rank,
                         nSolidInterfacePhysicalNodes =
                           nSolidInterfacePhysicalNodes_of withMPI world rank,
                         fluidPhysicalInterfaceNodesDistribution = fluidDistribution,
                         solidPhysicalInterfaceNodesDistribution = solidDistribution,
                         fluidGlobalIndexRange = fluidGlobalIndexRange_of withMPI world rank,
                         solidGlobalIndexRange = solidGlobalIndexRange_of withMPI world rank
                       \<rparr>)))))))"

section \<open>The VLM fluid collaborator\<close>

text \<open>The vertex counts \<open>coreSolver.data.wing.nvert\<close> and \<open>coreSolver.data.flap.nvert\<close>.\<close>

record vlm_data =
  wing_nvert :: int
  flap_nvert :: int

definition VLMSolver_getNodalIndex :: "vlm_data \<Rightarrow> int \<Rightarrow> int" where
  "VLMSolver_getNodalIndex self iVertex =
     (if iVertex > wing_nvert self + flap_nvert self
      then iVertex + 20000 - wing_nvert self - flap_nvert self
      else if iVertex > wing_nvert self
      then iVertex + 10000 - wing_nvert self
      else iVertex)"

section \<open>Vocabulary of the properties\<close>

text \<open>
  The solver-native identifiers of a collaborator's local vertex positions, in position
  order, and those among them that are not keys of the collaborator's halo dict.
\<close>

definition vertexIds :: "solver option \<Rightarrow> int list" where
  "vertexIds S = (case S of None \<Rightarrow> [] | Some s \<Rightarrow> map (getNodalIndex s) (range_py (nNodes s)))"

definition physicalIds :: "solver option \<Rightarrow> int list" where
  "physicalIds S = filter (\<lambda>n. n \<notin> dom (haloNodes S)) (vertexIds S)"

text \<open>
  Handing out successive global indices, from \<open>g\<close> on, to a list of identifiers in
  order: the reference against which the local loop and the merge are compared.
\<close>

fun assign :: "int \<Rightarrow> int list \<Rightarrow> (int \<rightharpoonup> int) \<Rightarrow> (int \<rightharpoonup> int)" where
  "assign g [] m = m"
| "assign g (n # ns) m = assign (g + 1) ns (m(n \<mapsto> g))"

text \<open>The indices of an inclusive pair \<open>(start, stop)\<close>.\<close>

definition range_set :: "int \<times> int \<Rightarrow> int set" where
  "range_set r = {fst r..snd r}"

text \<open>
  The decomposition contract on one side, over the collaborators of all ranks: the
  physical count a rank reports is the number of its non-halo vertices, and no
  identifier is a non-halo vertex twice, on one rank or on two.
\<close>

definition counts_consistent :: "solver option list \<Rightarrow> bool" where
  "counts_consistent Ss = list_all (\<lambda>S. int (length (physicalIds S)) = physicalNodes S) Ss"

definition single_owner :: "solver option list \<Rightarrow> bool" where
  "single_owner Ss = distinct (concat (map physicalIds Ss))"

definition halo_owned_elsewhere :: "solver option list \<Rightarrow> bool" where
  "halo_owned_elsewhere Ss =
     list_all
       (\<lambda>P. list_all
              (\<lambda>h. h \<in> dom (haloNodes (Ss ! P)) \<longrightarrow>
                   list_ex (\<lambda>Q. Q \<noteq> P \<and> h \<in> set (physicalIds (Ss ! Q))) [0..<length Ss])
              (vertexIds (Ss ! P)))
       [0..<length Ss]"

text \<open>
  The two sides of the interface, and the attributes of a process and of a manager that
  belong to a side.
\<close>

datatype side = Fluid | Solid

fun collaborator :: "side \<Rightarrow> proc \<Rightarrow> solver option" where
  "collaborator Fluid p = fst p"
| "collaborator Solid p = snd p"

fun sideIndexing :: "side \<Rightarrow> manager \<Rightarrow> (int \<rightharpoonup> int)" where
  "sideIndexing Fluid m = fluidIndexing m"
| "sideIndexing Solid m = solidIndexing m"

fun sideTotal :: "side \<Rightarrow> manager \<Rightarrow> int" where
  "sideTotal Fluid m = nFluidInterfacePhysicalNodes m"
| "sideTotal Solid m = nSolidInterfacePhysicalNodes m"

fun sideHaloNodesList :: "side \<Rightarrow> manager \<Rightarrow> (int \<rightharpoonup> int) list" where
  "sideHaloNodesList Fluid m = fluidHaloNodesList m"
| "sideHaloNodesList Solid m = solidHaloNodesList m"

fun sideGlobalIndexRange :: "side \<Rightarrow> manager \<Rightarrow> (int \<times> int) list" where
  "sideGlobalIndexRange Fluid m = fluidGlobalIndexRange m"
| "sideGlobalIndexRange Solid m = solidGlobalIndexRange m"

fun sideDistribution :: "side \<Rightarrow> manager \<Rightarrow> int list" where
  "sideDistribution Fluid m = fluidPhysicalInterfaceNodesDistribution m"
| "sideDistribution Solid m = solidPhysicalInterfaceNodesDistribution m"

fun sideInterfaceProcessors :: "side \<Rightarrow> manager \<Rightarrow> int list" where
  "sideInterfaceProcessors Fluid m = fluidInterfaceProcessors m"
| "sideInterfaceProcessors Solid m = solidInterfaceProcessors m"

fun sideIndexing_temp_of ::
  "side \<Rightarrow> bool \<Rightarrow> proc list \<Rightarrow> nat \<Rightarrow> failure + (int \<rightharpoonup> int)" where
  "sideIndexing_temp_of Fluid withMPI world rank = fluidIndexing_temp_of withMPI world rank"
| "sideIndexing_temp_of Solid withMPI world rank = solidIndexing_temp_of withMPI world rank"

text \<open>
  The processes that take part in a run: all of \<open>world\<close> with a communicator, the process
  itself without one. The decomposition contract of a side is stated over them; its last
  part says that a local vertex that is a halo node is a non-halo vertex of another rank.
\<close>

definition group_of :: "bool \<Rightarrow> proc list \<Rightarrow> nat \<Rightarrow> proc list" where
  "group_of withMPI world rank = (if withMPI then world else [world ! rank])"

definition decomposition_contract :: "side \<Rightarrow> proc list \<Rightarrow> bool" where
  "decomposition_contract sd procs =
     (counts_consistent (map (collaborator sd) procs)
      \<and> single_owner (map (collaborator sd) procs)
      \<and> halo_owned_elsewhere (map (collaborator sd) procs))"

text \<open>
  Collaborators for the examples: \<open>n\<close> vertices with identifiers \<open>off, off + 1, \<dots>\<close>,
  either all physical, or reporting \<open>p\<close> physical nodes with the one halo identifier \<open>h\<close>.
\<close>

abbreviation plain_solver :: "int \<Rightarrow> int \<Rightarrow> solver" where
  "plain_solver n off \<equiv>
     \<lparr>nNodes = n, nPhysicalNodes = n, haloNodeList = Map.empty, getNodalIndex = (\<lambda>i. i + off)\<rparr>"

abbreviation halo_solver :: "int \<Rightarrow> int \<Rightarrow> int \<Rightarrow> int \<Rightarrow> solver" where
  "halo_solver n p off h \<equiv>
     \<lparr>nNodes = n, nPhysicalNodes = p, haloNodeList = [h \<mapsto> 0], getNodalIndex = (\<lambda>i. i + off)\<rparr>"

section \<open>Auxiliary facts\<close>

lemma allgather_length: "length (allgather world c) = length world"
  by (simp add: allgather_def)

lemma allgather_nth: "i < length world \<Longrightarrow> allgather world c ! i = c i (world ! i)"
  by (simp add: allgather_def)

lemma processors_mem:
  "int r \<in> set (processors True world have) \<longleftrightarrow> r < length world \<and> have (world ! r)"
  by (auto simp: processors_def allgather_def sendBuf_def split: if_splits)

lemma processors_single: "processors False world have = [0]"
  by (simp add: processors_def)

lemma globalIndexStart_loop_sum:
  "myid \<le> length distribution \<Longrightarrow>
   globalIndexStart_loop distribution myid = sum_list (take myid distribution)"
  unfolding globalIndexStart_loop_def
proof (induction myid)
  case 0
  then show ?case by simp
next
  case (Suc k)
  then show ?case by (simp add: take_Suc_conv_app_nth)
qed

lemma py_index_nat: "i < length xs \<Longrightarrow> py_index xs (int i) = Inr (xs ! i)"
  by (simp add: py_index_def)

lemma getGlobalIndex_in_fluid:
  "i < length fr \<Longrightarrow> getGlobalIndex_in fr sr ''fluid'' (int i) k = Inr (fst (fr ! i) + k)"
  by (simp add: getGlobalIndex_in_def py_index_nat)

lemma getGlobalIndex_in_solid:
  "i < length sr \<Longrightarrow> getGlobalIndex_in fr sr ''solid'' (int i) k = Inr (fst (sr ! i) + k)"
  by (simp add: getGlobalIndex_in_def py_index_nat)

lemma indexing_loop_assign:
  assumes "\<And>k. gi k = Inr (start + k)"
  shows "indexing_loop nodal (Inr halo) gi vs temp li =
         Inr (assign (start + li) (filter (\<lambda>n. n \<notin> dom halo) (map nodal vs)) temp)"
proof (induction vs arbitrary: temp li)
  case Nil
  then show ?case by simp
next
  case (Cons v vs)
  show ?case
  proof (cases "nodal v \<in> dom halo")
    case True
    then show ?thesis using Cons[of temp li] by simp
  next
    case False
    have "indexing_loop nodal (Inr halo) gi (v # vs) temp li =
          indexing_loop nodal (Inr halo) gi vs (temp(nodal v \<mapsto> start + li)) (li + 1)"
      using False by (simp add: assms Let_def)
    also have "\<dots> = Inr (assign (start + (li + 1)) (filter (\<lambda>n. n \<notin> dom halo) (map nodal vs))
                        (temp(nodal v \<mapsto> start + li)))"
      by (rule Cons)
    finally show ?thesis using False by (simp add: add.assoc)
  qed
qed

lemma assign_append: "assign g (xs @ ys) m = assign (g + int (length xs)) ys (assign g xs m)"
  by (induction xs arbitrary: g m) (simp_all add: add.assoc add.commute)

lemma assign_map_add_gen: "assign g ns (m ++ m') = m ++ assign g ns m'"
  by (induction ns arbitrary: g m') (simp_all del: map_add_upd add: map_add_upd[symmetric])

lemma assign_map_add: "assign g ns m = m ++ assign g ns Map.empty"
  using assign_map_add_gen[of g ns m Map.empty] by simp

lemma dom_assign: "dom (assign g ns m) = dom m \<union> set ns"
  by (induction ns arbitrary: g m) auto

lemma assign_notin: "x \<notin> set ns \<Longrightarrow> assign g ns m x = m x"
  by (induction ns arbitrary: g m) auto

lemma assign_at:
  "x \<notin> set B \<Longrightarrow> assign g (A @ x # B) m x = Some (g + int (length A))"
  by (simp add: assign_append assign_notin)

lemma assign_nth:
  "distinct ns \<Longrightarrow> i < length ns \<Longrightarrow> assign g ns m (ns ! i) = Some (g + int i)"
proof -
  assume d: "distinct ns" and i: "i < length ns"
  have ns: "ns = take i ns @ ns ! i # drop (Suc i) ns"
    using i by (simp add: id_take_nth_drop)
  have "ns ! i \<notin> set (drop (Suc i) ns)"
    using d i ns by (metis distinct.simps(2) distinct_append)
  then have "assign g (take i ns @ ns ! i # drop (Suc i) ns) m (ns ! i) = Some (g + int (length (take i ns)))"
    by (rule assign_at)
  then show ?thesis using ns i by simp
qed

lemma merge_indexing_snoc: "merge_indexing (ts @ [t]) = merge_indexing ts ++ t"
  by (simp add: merge_indexing_def)

lemma merge_assign:
  assumes "\<And>r. r < n \<Longrightarrow> ids r = [] \<or> st r = int (length (concat (map ids [0..<r])))"
  shows "merge_indexing (map (\<lambda>r. assign (st r) (ids r) Map.empty) [0..<n]) =
         assign 0 (concat (map ids [0..<n])) Map.empty"
  using assms
proof (induction n)
  case 0
  then show ?case by (simp add: merge_indexing_def)
next
  case (Suc n)
  have IH: "merge_indexing (map (\<lambda>r. assign (st r) (ids r) Map.empty) [0..<n]) =
            assign 0 (concat (map ids [0..<n])) Map.empty"
    using Suc by simp
  have "ids n = [] \<or> st n = int (length (concat (map ids [0..<n])))"
    using Suc.prems by simp
  then show ?case
  proof
    assume "ids n = []"
    then show ?thesis by (simp add: merge_indexing_snoc IH)
  next
    assume st: "st n = int (length (concat (map ids [0..<n])))"
    have "assign 0 (concat (map ids [0..<Suc n])) Map.empty =
          assign (st n) (ids n) (assign 0 (concat (map ids [0..<n])) Map.empty)"
      by (simp add: assign_append st)
    also have "\<dots> = assign 0 (concat (map ids [0..<n])) Map.empty ++ assign (st n) (ids n) Map.empty"
      by (rule assign_map_add)
    finally show ?thesis by (simp add: merge_indexing_snoc IH)
  qed
qed

lemma gathered_Inr: "gathered (map Inr xs) = Inr xs"
  by (induction xs) simp_all

lemma map_nth_fun: "map (\<lambda>i. f (xs ! i)) [0..<length xs] = map f xs"
  by (rule nth_equalityI) simp_all

lemma Manager_init_fields:
  assumes "Manager_init withMPI world rank = Inr m"
  shows "fluidGlobalIndexRange m = fluidGlobalIndexRange_of withMPI world rank"
    and "solidGlobalIndexRange m = solidGlobalIndexRange_of withMPI world rank"
    and "fluidDistribution_of withMPI world rank = Inr (fluidPhysicalInterfaceNodesDistribution m)"
    and "solidDistribution_of withMPI world rank = Inr (solidPhysicalInterfaceNodesDistribution m)"
    and "fluidInterfaceProcessors m = fluidInterfaceProcessors_of withMPI world"
    and "solidInterfaceProcessors m = solidInterfaceProcessors_of withMPI world"
    and "fluidSolverProcessors m = fluidSolverProcessors_of withMPI world"
    and "solidSolverProcessors m = solidSolverProcessors_of withMPI world"
    and "nFluidInterfacePhysicalNodes m = nFluidInterfacePhysicalNodes_of withMPI world rank"
    and "nSolidInterfacePhysicalNodes m = nSolidInterfacePhysicalNodes_of withMPI world rank"
    and "nLocalFluidInterfacePhysicalNodes m = nLocalFluidInterfacePhysicalNodes_of world rank"
    and "nLocalSolidInterfacePhysicalNodes m =
           nLocalSolidInterfacePhysicalNodes_of withMPI world rank"
    and "fluidHaloNodesList m = fluidHaloNodesList_of withMPI world"
    and "solidHaloNodesList m = solidHaloNodesList_of withMPI world"
  using assms unfolding Manager_init_def Let_def
  by (auto split: if_splits sum.splits)

lemma Manager_init_indexing:
  assumes "Manager_init withMPI world rank = Inr m"
  shows "\<exists>ft. fluidIndexing_temp_of withMPI world rank = Inr ft \<and>
           indexing_of withMPI world (fluidIndexing_temp_of True world) ft = Inr (fluidIndexing m)"
    and "\<exists>st. solidIndexing_temp_of withMPI world rank = Inr st \<and>
           indexing_of withMPI world (solidIndexing_temp_of True world) st = Inr (solidIndexing m)"
  using assms unfolding Manager_init_def Let_def
  by (auto split: if_splits sum.splits)

lemma Manager_init_present:
  assumes "Manager_init withMPI world rank = Inr m"
  shows "haveSolver (fst (world ! rank))"
    and "withMPI \<Longrightarrow> list_all (\<lambda>p. haveSolver (fst p)) world"
    and "\<not> withMPI \<Longrightarrow> haveSolver (snd (world ! rank))"
  using assms unfolding Manager_init_def Let_def
  by (auto simp: solidSolverProcessors_of_def processors_def myid_of_def list_ex_iff list_all_iff
           split: if_splits sum.splits)

lemma single_totals:
  "nFluidInterfacePhysicalNodes_of False world rank = physicalNodes (fst (world ! rank))"
  "nSolidInterfacePhysicalNodes_of False world rank = physicalNodes (snd (world ! rank))"
  by (simp_all add: nFluidInterfacePhysicalNodes_of_def nSolidInterfacePhysicalNodes_of_def
        mpiAllReduce_def nLocalFluidInterfacePhysicalNodes_of_def
        nLocalSolidInterfacePhysicalNodes_of_def solidSolverProcessors_of_def processors_def
        myid_of_def)

lemma single_distributions:
  "fluidDistribution_of False world rank =
     (if int64 (physicalNodes (fst (world ! rank)))
      then Inr [physicalNodes (fst (world ! rank))] else Inl OverflowError)"
  "solidDistribution_of False world rank =
     (if int64 (physicalNodes (snd (world ! rank)))
      then Inr [physicalNodes (snd (world ! rank))] else Inl OverflowError)"
  by (simp_all add: fluidDistribution_of_def solidDistribution_of_def np_setitem_def
        mpiSize_of_def single_totals)

lemma Manager_init_fits:
  assumes "Manager_init False world rank = Inr m"
  shows "int64 (physicalNodes (fst (world ! rank)))"
    and "int64 (physicalNodes (snd (world ! rank)))"
  using Manager_init_fields(3,4)[OF assms]
  by (simp_all add: single_distributions split: if_splits)

lemma fluidDistribution_MPI:
  "fluidDistribution_gathered world = map (\<lambda>p. physicalNodes (fst p)) world"
  by (rule nth_equalityI)
     (simp_all add: fluidDistribution_gathered_def allgather_def
        nLocalFluidInterfacePhysicalNodes_of_def)

lemma solid_local_physical_MPI:
  "i < length world \<Longrightarrow>
   nLocalSolidInterfacePhysicalNodes_of True world i = physicalNodes (snd (world ! i))"
  by (simp add: nLocalSolidInterfacePhysicalNodes_of_def solidSolverProcessors_of_def
        processors_mem myid_of_def haveSolver_def physicalNodes_def split: option.splits)

lemma solidDistribution_MPI:
  "solidDistribution_gathered world = map (\<lambda>p. physicalNodes (snd p)) world"
  by (rule nth_equalityI)
     (simp_all add: solidDistribution_gathered_def allgather_def solid_local_physical_MPI)

lemma solid_halo_local_MPI:
  "i < length world \<Longrightarrow> solidHaloNodes_local True world i = haloNodes (snd (world ! i))"
  by (simp add: solidHaloNodes_local_def solidSolverProcessors_of_def
        processors_mem myid_of_def haveSolver_def haloNodes_def split: option.splits)

lemma fluid_range_temp:
  "r < length world \<Longrightarrow>
   fluidGlobalIndexRange_temp world r =
     (if haveInterface (fst (world ! r))
      then (sum_list (take r (map (\<lambda>p. physicalNodes (fst p)) world)),
            sum_list (take r (map (\<lambda>p. physicalNodes (fst p)) world))
              + physicalNodes (fst (world ! r)) - 1)
      else (0, 0))"
  by (simp add: fluidGlobalIndexRange_temp_def fluidInterfaceProcessors_of_def processors_mem
        fluidDistribution_MPI globalIndexStart_loop_sum nLocalFluidInterfacePhysicalNodes_of_def
        Let_def)

lemma solid_range_temp:
  "r < length world \<Longrightarrow>
   solidGlobalIndexRange_temp world r =
     (if haveInterface (snd (world ! r))
      then (sum_list (take r (map (\<lambda>p. physicalNodes (snd p)) world)),
            sum_list (take r (map (\<lambda>p. physicalNodes (snd p)) world))
              + nLocalInterfaceNodes (snd (world ! r)) - 1)
      else (0, 0))"
  by (simp add: solidGlobalIndexRange_temp_def solidInterfaceProcessors_of_def processors_mem
        solidDistribution_MPI globalIndexStart_loop_sum Let_def)

lemma fluidGlobalIndexRange_MPI:
  "length (fluidGlobalIndexRange_of True world rank) = length world"
  "r < length world \<Longrightarrow>
   fluidGlobalIndexRange_of True world rank ! r = fluidGlobalIndexRange_temp world r"
  by (simp_all add: fluidGlobalIndexRange_of_def allgather_def)

lemma solidGlobalIndexRange_MPI:
  "length (solidGlobalIndexRange_of True world rank) = length world"
  "r < length world \<Longrightarrow>
   solidGlobalIndexRange_of True world rank ! r = solidGlobalIndexRange_temp world r"
  by (simp_all add: solidGlobalIndexRange_of_def allgather_def)

lemma physicalIds_Some:
  "physicalIds (Some s) =
     filter (\<lambda>n. n \<notin> dom (haloNodeList s)) (map (getNodalIndex s) (range_py (nNodes s)))"
  by (simp add: physicalIds_def vertexIds_def haloNodes_def)

lemma physicalIds_no_interface: "\<not> haveInterface S \<Longrightarrow> physicalIds S = []"
  by (simp add: physicalIds_def vertexIds_def haveInterface_def range_py_def
        split: option.splits)

lemma fluidIndexing_temp_MPI:
  assumes "r < length world" and "haveSolver (fst (world ! r))"
  shows "fluidIndexing_temp_of True world r =
         Inr (assign (fst (fluidGlobalIndexRange_temp world r))
                (physicalIds (fst (world ! r))) Map.empty)"
proof -
  obtain F where F: "fst (world ! r) = Some F"
    using assms(2) by (auto simp: haveSolver_def split: option.splits)
  have halo: "py_index (fluidHaloNodesList_of True world) (int r) = Inr (haloNodeList F)"
    using assms(1) F by (simp add: py_index_nat fluidHaloNodesList_of_def allgather_def haloNodes_def)
  have gi: "\<And>k. getGlobalIndex_in (fluidGlobalIndexRange_of True world r)
                 (solidGlobalIndexRange_of True world r) ''fluid'' (int r) k =
               Inr (fst (fluidGlobalIndexRange_temp world r) + k)"
    using assms(1) by (simp add: getGlobalIndex_in_fluid fluidGlobalIndexRange_MPI)
  show ?thesis
    unfolding fluidIndexing_temp_of_def Let_def myid_of_def
    by (simp add: F halo indexing_loop_assign[OF gi] physicalIds_Some nLocalInterfaceNodes_def)
qed

lemma physicalIds_None: "physicalIds None = []"
  by (simp add: physicalIds_def vertexIds_def)

lemma solidIndexing_temp_MPI:
  assumes "r < length world"
  shows "solidIndexing_temp_of True world r =
         Inr (assign (fst (solidGlobalIndexRange_temp world r))
                (physicalIds (snd (world ! r))) Map.empty)"
proof (cases "snd (world ! r)")
  case None
  then show ?thesis by (simp add: solidIndexing_temp_of_def physicalIds_None)
next
  case (Some S)
  have halo: "py_index (solidHaloNodesList_of True world) (int r) = Inr (haloNodeList S)"
    using assms Some
    by (simp add: py_index_nat solidHaloNodesList_of_def allgather_def solid_halo_local_MPI
          haloNodes_def)
  have gi: "\<And>k. getGlobalIndex_in (fluidGlobalIndexRange_of True world r)
                 (solidGlobalIndexRange_of True world r) ''solid'' (int r) k =
               Inr (fst (solidGlobalIndexRange_temp world r) + k)"
    using assms by (simp add: getGlobalIndex_in_solid solidGlobalIndexRange_MPI)
  show ?thesis
    unfolding solidIndexing_temp_of_def Let_def myid_of_def
    by (simp add: Some halo indexing_loop_assign[OF gi] physicalIds_Some nLocalInterfaceNodes_def)
qed

lemma counts_prefix:
  assumes "counts_consistent Ss" and "r \<le> length Ss"
  shows "sum_list (take r (map physicalNodes Ss)) =
         int (length (concat (map (\<lambda>j. physicalIds (Ss ! j)) [0..<r])))"
  using assms(2)
proof (induction r)
  case 0
  then show ?case by simp
next
  case (Suc r)
  have "int (length (physicalIds (Ss ! r))) = physicalNodes (Ss ! r)"
    using assms(1) Suc.prems by (simp add: counts_consistent_def list_all_length)
  then show ?case using Suc by (simp add: take_Suc_conv_app_nth)
qed

lemma merged_closed:
  assumes "counts_consistent Ss"
    and "\<And>r. r < length Ss \<Longrightarrow>
           st r = (if haveInterface (Ss ! r) then sum_list (take r (map physicalNodes Ss)) else 0)"
  shows "merge_indexing (map (\<lambda>r. assign (st r) (physicalIds (Ss ! r)) Map.empty) [0..<length Ss]) =
         assign 0 (concat (map physicalIds Ss)) Map.empty"
proof -
  have "merge_indexing (map (\<lambda>r. assign (st r) (physicalIds (Ss ! r)) Map.empty) [0..<length Ss]) =
        assign 0 (concat (map (\<lambda>r. physicalIds (Ss ! r)) [0..<length Ss])) Map.empty"
  proof (rule merge_assign)
    fix r assume r: "r < length Ss"
    show "physicalIds (Ss ! r) = [] \<or>
          st r = int (length (concat (map (\<lambda>r. physicalIds (Ss ! r)) [0..<r])))"
    proof (cases "haveInterface (Ss ! r)")
      case True
      then show ?thesis using assms(2)[OF r] counts_prefix[OF assms(1), of r] r by simp
    next
      case False
      then show ?thesis by (simp add: physicalIds_no_interface)
    qed
  qed
  then show ?thesis by (simp only: map_nth_fun[of physicalIds Ss])
qed

lemma gathered_Inr_comp: "gathered (map (Inr \<circ> f) xs) = Inr (map f xs)"
  by (induction xs) simp_all

lemma fluidIndexing_MPI:
  assumes "Manager_init True world rank = Inr m" and "counts_consistent (map fst world)"
  shows "fluidIndexing m = assign 0 (concat (map (\<lambda>p. physicalIds (fst p)) world)) Map.empty"
proof -
  let ?t = "\<lambda>r. assign (fst (fluidGlobalIndexRange_temp world r))
                   (physicalIds (fst (world ! r))) Map.empty"
  let ?t' = "\<lambda>r. assign (fst (fluidGlobalIndexRange_temp world r))
                   (physicalIds (map fst world ! r)) Map.empty"
  have present: "list_all (\<lambda>p. haveSolver (fst p)) world"
    using Manager_init_present(2)[OF assms(1)] by simp
  have "allgather world (\<lambda>myid p. fluidIndexing_temp_of True world myid) =
        map Inr (map ?t [0..<length world])"
    unfolding allgather_def using present
    by (simp add: fluidIndexing_temp_MPI list_all_length)
  then have ix: "indexing_of True world (fluidIndexing_temp_of True world) ft =
                 Inr (merge_indexing (map ?t [0..<length world]))" for ft
    by (simp add: indexing_of_def gathered_Inr_comp)
  obtain ft where "indexing_of True world (fluidIndexing_temp_of True world) ft =
                   Inr (fluidIndexing m)"
    using Manager_init_indexing(1)[OF assms(1)] by blast
  then have "fluidIndexing m = merge_indexing (map ?t [0..<length world])"
    using ix[of ft] by simp
  also have "\<dots> = merge_indexing (map ?t' [0..<length (map fst world)])"
  proof -
    have "map ?t [0..<length world] = map ?t' [0..<length (map fst world)]"
      by (rule nth_equalityI) simp_all
    then show ?thesis by (simp only:)
  qed
  also have "\<dots> = assign 0 (concat (map physicalIds (map fst world))) Map.empty"
    by (rule merged_closed[OF assms(2)]) (simp add: fluid_range_temp comp_def)
  finally show ?thesis by (simp add: comp_def)
qed

lemma solidIndexing_MPI:
  assumes "Manager_init True world rank = Inr m" and "counts_consistent (map snd world)"
  shows "solidIndexing m = assign 0 (concat (map (\<lambda>p. physicalIds (snd p)) world)) Map.empty"
proof -
  let ?t = "\<lambda>r. assign (fst (solidGlobalIndexRange_temp world r))
                   (physicalIds (snd (world ! r))) Map.empty"
  let ?t' = "\<lambda>r. assign (fst (solidGlobalIndexRange_temp world r))
                   (physicalIds (map snd world ! r)) Map.empty"
  have "allgather world (\<lambda>myid p. solidIndexing_temp_of True world myid) =
        map Inr (map ?t [0..<length world])"
    unfolding allgather_def by (simp add: solidIndexing_temp_MPI)
  then have ix: "indexing_of True world (solidIndexing_temp_of True world) st =
                 Inr (merge_indexing (map ?t [0..<length world]))" for st
    by (simp add: indexing_of_def gathered_Inr_comp)
  obtain st where "indexing_of True world (solidIndexing_temp_of True world) st =
                   Inr (solidIndexing m)"
    using Manager_init_indexing(2)[OF assms(1)] by blast
  then have "solidIndexing m = merge_indexing (map ?t [0..<length world])"
    using ix[of st] by simp
  also have "\<dots> = merge_indexing (map ?t' [0..<length (map snd world)])"
  proof -
    have "map ?t [0..<length world] = map ?t' [0..<length (map snd world)]"
      by (rule nth_equalityI) simp_all
    then show ?thesis by (simp only:)
  qed
  also have "\<dots> = assign 0 (concat (map physicalIds (map snd world))) Map.empty"
    by (rule merged_closed[OF assms(2)]) (simp add: solid_range_temp comp_def)
  finally show ?thesis by (simp add: comp_def)
qed

lemma fluidIndexing_temp_single:
  assumes "haveSolver (fst (world ! rank))"
  shows "fluidIndexing_temp_of False world rank =
         Inr (assign 0 (vertexIds (fst (world ! rank))) Map.empty)"
proof -
  obtain F where F: "fst (world ! rank) = Some F"
    using assms by (auto simp: haveSolver_def split: option.splits)
  have gi: "\<And>k. getGlobalIndex_in (fluidGlobalIndexRange_of False world rank)
                 (solidGlobalIndexRange_of False world rank) ''fluid'' (int 0) k = Inr (0 + k)"
    using getGlobalIndex_in_fluid[of 0 "fluidGlobalIndexRange_of False world rank"]
    by (simp add: fluidGlobalIndexRange_of_def)
  show ?thesis
    unfolding fluidIndexing_temp_of_def Let_def myid_of_def
    using indexing_loop_assign[OF gi, of "getNodalIndex F" Map.empty _ Map.empty 0]
    by (simp add: F py_index_def fluidHaloNodesList_of_def vertexIds_def nLocalInterfaceNodes_def)
qed

lemma solidIndexing_temp_single:
  "solidIndexing_temp_of False world rank =
   Inr (assign 0 (vertexIds (snd (world ! rank))) Map.empty)"
proof (cases "snd (world ! rank)")
  case None
  then show ?thesis by (simp add: solidIndexing_temp_of_def vertexIds_def)
next
  case (Some S)
  have gi: "\<And>k. getGlobalIndex_in (fluidGlobalIndexRange_of False world rank)
                 (solidGlobalIndexRange_of False world rank) ''solid'' (int 0) k = Inr (0 + k)"
    using getGlobalIndex_in_solid[of 0 "solidGlobalIndexRange_of False world rank"]
    by (simp add: solidGlobalIndexRange_of_def)
  show ?thesis
    unfolding solidIndexing_temp_of_def Let_def myid_of_def
    using indexing_loop_assign[OF gi, of "getNodalIndex S" Map.empty _ Map.empty 0]
    by (simp add: Some py_index_def solidHaloNodesList_of_def vertexIds_def nLocalInterfaceNodes_def)
qed

lemma fluidIndexing_single:
  assumes "Manager_init False world rank = Inr m"
  shows "fluidIndexing m = assign 0 (vertexIds (fst (world ! rank))) Map.empty"
  using Manager_init_indexing(1)[OF assms] Manager_init_present(1)[OF assms]
  by (auto simp: fluidIndexing_temp_single indexing_of_def)

lemma solidIndexing_single:
  assumes "Manager_init False world rank = Inr m"
  shows "solidIndexing m = assign 0 (vertexIds (snd (world ! rank))) Map.empty"
  using Manager_init_indexing(2)[OF assms]
  by (auto simp: solidIndexing_temp_single indexing_of_def)

lemma Manager_init_succeeds:
  assumes "rank < length world"
    and "if withMPI then list_all (\<lambda>p. haveSolver (fst p)) world
         else haveSolver (fst (world ! rank)) \<and> haveSolver (snd (world ! rank))
              \<and> int64 (physicalNodes (fst (world ! rank)))
              \<and> int64 (physicalNodes (snd (world ! rank)))"
  shows "\<exists>m. Manager_init withMPI world rank = Inr m"
proof (cases withMPI)
  case True
  then have present: "list_all (\<lambda>p. haveSolver (fst p)) world" using assms(2) by simp
  have a: "allgather world (\<lambda>myid p. fluidIndexing_temp_of True world myid) =
        map Inr (map (\<lambda>r. assign (fst (fluidGlobalIndexRange_temp world r))
                   (physicalIds (fst (world ! r))) Map.empty) [0..<length world])"
    unfolding allgather_def using present
    by (simp add: fluidIndexing_temp_MPI list_all_length)
  have b: "allgather world (\<lambda>myid p. solidIndexing_temp_of True world myid) =
        map Inr (map (\<lambda>r. assign (fst (solidGlobalIndexRange_temp world r))
                   (physicalIds (snd (world ! r))) Map.empty) [0..<length world])"
    unfolding allgather_def by (simp add: solidIndexing_temp_MPI)
  have c: "haveSolver (fst (world ! rank))"
    using present assms(1) by (simp add: list_all_length)
  have d: "int rank \<in> set (solidSolverProcessors_of True world) \<Longrightarrow> haveSolver (snd (world ! rank))"
    by (simp add: solidSolverProcessors_of_def processors_mem)
  have e: "\<not> list_ex (\<lambda>p. \<not> haveSolver (fst p)) world"
    using present by (simp add: list_ex_iff list_all_iff)
  show ?thesis
    unfolding Manager_init_def Let_def using True c d e assms(1)
    by (auto simp: myid_of_def fluidIndexing_temp_MPI solidIndexing_temp_MPI indexing_of_def
          a b gathered_Inr_comp fluidDistribution_of_def solidDistribution_of_def)
next
  case False
  then show ?thesis
    unfolding Manager_init_def Let_def using assms(2)
    by (simp add: myid_of_def fluidIndexing_temp_single solidIndexing_temp_single indexing_of_def
          single_distributions)
qed

lemma range_lengths:
  "length (fluidGlobalIndexRange_of withMPI world rank) = mpiSize_of withMPI world"
  "length (solidGlobalIndexRange_of withMPI world rank) = mpiSize_of withMPI world"
  by (simp_all add: fluidGlobalIndexRange_of_def solidGlobalIndexRange_of_def allgather_def
        mpiSize_of_def)

lemma Manager_init_Inr_iff:
  assumes "rank < length world"
  shows "(\<exists>m. Manager_init withMPI world rank = Inr m) =
         (if withMPI then list_all (\<lambda>p. haveSolver (fst p)) world
          else haveSolver (fst (world ! rank)) \<and> haveSolver (snd (world ! rank))
               \<and> int64 (physicalNodes (fst (world ! rank)))
               \<and> int64 (physicalNodes (snd (world ! rank))))"
proof
  assume "\<exists>m. Manager_init withMPI world rank = Inr m"
  then obtain m where m: "Manager_init withMPI world rank = Inr m" ..
  show "if withMPI then list_all (\<lambda>p. haveSolver (fst p)) world
        else haveSolver (fst (world ! rank)) \<and> haveSolver (snd (world ! rank))
             \<and> int64 (physicalNodes (fst (world ! rank)))
             \<and> int64 (physicalNodes (snd (world ! rank)))"
  proof (cases withMPI)
    case True
    then show ?thesis using Manager_init_present(2)[OF m] by simp
  next
    case False
    then show ?thesis
      using Manager_init_present(1,3)[OF m] Manager_init_fits[of world rank m] m by simp
  qed
next
  assume "if withMPI then list_all (\<lambda>p. haveSolver (fst p)) world
          else haveSolver (fst (world ! rank)) \<and> haveSolver (snd (world ! rank))
               \<and> int64 (physicalNodes (fst (world ! rank)))
               \<and> int64 (physicalNodes (snd (world ! rank)))"
  then show "\<exists>m. Manager_init withMPI world rank = Inr m"
    by (rule Manager_init_succeeds[OF assms])
qed

lemma haveSolver_map_option: "haveSolver (map_option f S) = haveSolver S"
  by (cases S) (simp_all add: haveSolver_def)

lemma physicalNodes_halo_update:
  "physicalNodes (map_option (haloNodeList_update f) S) = physicalNodes S"
  by (cases S) (simp_all add: physicalNodes_def)

lemma assign_distinct:
  assumes "distinct ids"
  shows "card (dom (assign g ids Map.empty)) = length ids"
    and "inj_on (assign g ids Map.empty) (dom (assign g ids Map.empty))"
    and "ran (assign g ids Map.empty) = {g..g + int (length ids) - 1}"
proof -
  let ?m = "assign g ids Map.empty"
  have d: "dom ?m = set ids" by (simp add: dom_assign)
  have at: "\<And>i. i < length ids \<Longrightarrow> ?m (ids ! i) = Some (g + int i)"
    using assms by (rule assign_nth)
  show "card (dom ?m) = length ids" using assms by (simp add: d distinct_card)
  show "inj_on ?m (dom ?m)"
  proof (rule inj_onI)
    fix x y assume "x \<in> dom ?m" "y \<in> dom ?m" and eq: "?m x = ?m y"
    then obtain i j where i: "i < length ids" "x = ids ! i" and j: "j < length ids" "y = ids ! j"
      unfolding d by (auto simp: in_set_conv_nth)
    then have "g + int i = g + int j" using eq at by simp
    then show "x = y" using i j by simp
  qed
  show "ran ?m = {g..g + int (length ids) - 1}"
  proof (rule set_eqI)
    fix v
    show "v \<in> ran ?m \<longleftrightarrow> v \<in> {g..g + int (length ids) - 1}"
    proof
      assume "v \<in> ran ?m"
      then obtain k where k: "?m k = Some v" by (auto simp: ran_def)
      then have "k \<in> set ids" using d by auto
      then obtain i where "i < length ids" "k = ids ! i" by (auto simp: in_set_conv_nth)
      then show "v \<in> {g..g + int (length ids) - 1}" using at k by auto
    next
      assume "v \<in> {g..g + int (length ids) - 1}"
      then have "nat (v - g) < length ids" "v = g + int (nat (v - g))" by auto
      then have "?m (ids ! nat (v - g)) = Some v" using at by metis
      then show "v \<in> ran ?m" by (auto simp: ran_def)
    qed
  qed
qed

lemma counts_total:
  assumes "counts_consistent Ss"
  shows "sum_list (map physicalNodes Ss) = int (length (concat (map physicalIds Ss)))"
  using counts_prefix[OF assms, of "length Ss"]
  by (simp only: map_nth_fun[of physicalIds Ss]) simp

lemma sideIndexing_MPI:
  assumes "Manager_init True world rank = Inr m"
    and "counts_consistent (map (collaborator sd) world)"
  shows "sideIndexing sd m =
         assign 0 (concat (map (\<lambda>p. physicalIds (collaborator sd p)) world)) Map.empty"
proof (cases sd)
  case Fluid
  have "collaborator Fluid = fst" by (rule ext) simp
  then show ?thesis using fluidIndexing_MPI[OF assms(1)] assms(2) Fluid by simp
next
  case Solid
  have "collaborator Solid = snd" by (rule ext) simp
  then show ?thesis using solidIndexing_MPI[OF assms(1)] assms(2) Solid by simp
qed

lemma sideIndexing_single:
  assumes "Manager_init False world rank = Inr m"
  shows "sideIndexing sd m = assign 0 (vertexIds (collaborator sd (world ! rank))) Map.empty"
  using fluidIndexing_single[OF assms] solidIndexing_single[OF assms] by (cases sd) simp_all

lemma sideTotal_MPI:
  assumes "Manager_init True world rank = Inr m"
  shows "sideTotal sd m = sum_list (map (\<lambda>p. physicalNodes (collaborator sd p)) world)"
proof (cases sd)
  case Fluid
  have "nFluidInterfacePhysicalNodes_of True world rank =
        sum_list (fluidDistribution_gathered world)"
    by (simp add: nFluidInterfacePhysicalNodes_of_def mpiAllReduce_def
          fluidDistribution_gathered_def)
  then show ?thesis
    using Fluid Manager_init_fields(9)[OF assms] by (simp add: fluidDistribution_MPI)
next
  case Solid
  have "nSolidInterfacePhysicalNodes_of True world rank =
        sum_list (solidDistribution_gathered world)"
    by (simp add: nSolidInterfacePhysicalNodes_of_def mpiAllReduce_def
          solidDistribution_gathered_def)
  then show ?thesis
    using Solid Manager_init_fields(10)[OF assms] by (simp add: solidDistribution_MPI)
qed

lemma sideTotal_single:
  assumes "Manager_init False world rank = Inr m"
  shows "sideTotal sd m = physicalNodes (collaborator sd (world ! rank))"
proof (cases sd)
  case Fluid
  then show ?thesis
    using Manager_init_fields(9)[OF assms]
    by (simp add: nFluidInterfacePhysicalNodes_of_def mpiAllReduce_def
          nLocalFluidInterfacePhysicalNodes_of_def)
next
  case Solid
  then show ?thesis
    using Manager_init_fields(10)[OF assms]
    by (simp add: nSolidInterfacePhysicalNodes_of_def mpiAllReduce_def
          nLocalSolidInterfacePhysicalNodes_of_def solidSolverProcessors_of_def processors_def
          myid_of_def)
qed

lemma alone_no_halo_vertex:
  assumes "halo_owned_elsewhere [S]"
  shows "physicalIds S = vertexIds S"
proof -
  have "\<forall>h\<in>set (vertexIds S). h \<notin> dom (haloNodes S)"
    using assms by (simp add: halo_owned_elsewhere_def list_all_iff)
  then show ?thesis by (simp add: physicalIds_def)
qed

lemma sideIndexing_contract:
  assumes "Manager_init withMPI world rank = Inr m"
    and "decomposition_contract sd (group_of withMPI world rank)"
  shows "sideIndexing sd m =
         assign 0 (concat (map (\<lambda>p. physicalIds (collaborator sd p))
                              (group_of withMPI world rank))) Map.empty"
    and "sideTotal sd m =
         int (length (concat (map (\<lambda>p. physicalIds (collaborator sd p))
                                 (group_of withMPI world rank))))"
proof -
  let ?procs = "group_of withMPI world rank"
  have cc: "counts_consistent (map (collaborator sd) ?procs)"
    and ho: "halo_owned_elsewhere (map (collaborator sd) ?procs)"
    using assms(2) by (simp_all add: decomposition_contract_def)
  have tot: "sum_list (map (\<lambda>p. physicalNodes (collaborator sd p)) ?procs) =
             int (length (concat (map (\<lambda>p. physicalIds (collaborator sd p)) ?procs)))"
    using counts_total[OF cc] by (simp add: comp_def)
  show "sideIndexing sd m =
        assign 0 (concat (map (\<lambda>p. physicalIds (collaborator sd p)) ?procs)) Map.empty"
  proof (cases withMPI)
    case True
    then show ?thesis using sideIndexing_MPI[of world rank m sd] assms(1) cc
      by (simp add: group_of_def)
  next
    case False
    then show ?thesis using sideIndexing_single[of world rank m sd] assms(1) ho
      by (simp add: group_of_def alone_no_halo_vertex)
  qed
  show "sideTotal sd m =
        int (length (concat (map (\<lambda>p. physicalIds (collaborator sd p)) ?procs)))"
  proof (cases withMPI)
    case True
    then show ?thesis using sideTotal_MPI[of world rank m sd] assms(1) tot
      by (simp add: group_of_def)
  next
    case False
    then show ?thesis using sideTotal_single[of world rank m sd] assms(1) tot
      by (simp add: group_of_def)
  qed
qed

lemma gathered_InrD: "gathered rs = Inr xs \<Longrightarrow> rs = map Inr xs"
proof (induction rs arbitrary: xs)
  case Nil
  then show ?case by simp
next
  case (Cons r rs)
  then show ?case by (cases r) (auto split: sum.splits)
qed

lemma indexing_of_MPI_D:
  assumes "indexing_of True world temp_of own = Inr merged"
  shows "\<exists>ts. length ts = length world \<and> (\<forall>r<length world. temp_of r = Inr (ts ! r))
              \<and> merged = merge_indexing ts"
proof -
  obtain ts where g: "gathered (allgather world (\<lambda>myid p. temp_of myid)) = Inr ts"
    and mg: "merged = merge_indexing ts"
    using assms by (auto simp: indexing_of_def split: sum.splits)
  have eq: "allgather world (\<lambda>myid p. temp_of myid) = map Inr ts"
    using g by (rule gathered_InrD)
  then have len: "length ts = length world"
    by (metis allgather_length length_map)
  have "\<forall>r<length world. temp_of r = Inr (ts ! r)"
  proof (intro allI impI)
    fix r assume r: "r < length world"
    have "allgather world (\<lambda>myid p. temp_of myid) ! r = temp_of r"
      using r by (simp add: allgather_nth)
    then show "temp_of r = Inr (ts ! r)" using eq r len by simp
  qed
  then show ?thesis using len mg by blast
qed

lemma sideIndexing_MPI_merge:
  assumes "Manager_init True world rank = Inr m"
  shows "\<exists>ts. length ts = length world
              \<and> (\<forall>r<length world. sideIndexing_temp_of sd True world r = Inr (ts ! r))
              \<and> sideIndexing sd m = merge_indexing ts"
proof (cases sd)
  case Fluid
  obtain ft where "indexing_of True world (fluidIndexing_temp_of True world) ft =
                   Inr (fluidIndexing m)"
    using Manager_init_indexing(1)[OF assms] by blast
  from indexing_of_MPI_D[OF this] show ?thesis using Fluid by simp
next
  case Solid
  obtain st where "indexing_of True world (solidIndexing_temp_of True world) st =
                   Inr (solidIndexing m)"
    using Manager_init_indexing(2)[OF assms] by blast
  from indexing_of_MPI_D[OF this] show ?thesis using Solid by simp
qed

lemma sideTemp_MPI_dom:
  assumes "list_all (\<lambda>p. haveSolver (fst p)) world" and "r < length world"
    and "sideIndexing_temp_of sd True world r = Inr t"
  shows "dom t = set (physicalIds (collaborator sd (world ! r)))"
proof (cases sd)
  case Fluid
  have "haveSolver (fst (world ! r))" using assms(1,2) by (simp add: list_all_length)
  then have "t = assign (fst (fluidGlobalIndexRange_temp world r))
                   (physicalIds (fst (world ! r))) Map.empty"
    using assms(3) Fluid fluidIndexing_temp_MPI[OF assms(2)] by simp
  then show ?thesis using Fluid by (simp add: dom_assign)
next
  case Solid
  have "t = assign (fst (solidGlobalIndexRange_temp world r))
              (physicalIds (snd (world ! r))) Map.empty"
    using assms(3) Solid solidIndexing_temp_MPI[OF assms(2)] by simp
  then show ?thesis using Solid by (simp add: dom_assign)
qed

lemma merge_indexing_none:
  "(\<forall>R<length ts. h \<notin> dom (ts ! R)) \<Longrightarrow> merge_indexing ts h = None"
proof (induction ts rule: rev_induct)
  case Nil
  then show ?case by (simp add: merge_indexing_def)
next
  case (snoc t ts)
  have "\<forall>R<length ts. h \<notin> dom (ts ! R)"
    using snoc.prems by (metis length_append_singleton less_Suc_eq nth_append)
  moreover have "h \<notin> dom t"
    using snoc.prems by (metis length_append_singleton lessI nth_append_length)
  ultimately show ?case
    using snoc.IH by (simp add: merge_indexing_snoc map_add_def domIff)
qed

lemma merge_unique_owner:
  "Q < length ts \<Longrightarrow> (\<forall>R<length ts. R \<noteq> Q \<longrightarrow> h \<notin> dom (ts ! R)) \<Longrightarrow>
   merge_indexing ts h = (ts ! Q) h"
proof (induction ts rule: rev_induct)
  case Nil
  then show ?case by simp
next
  case (snoc t ts)
  show ?case
  proof (cases "Q = length ts")
    case True
    have "\<forall>R<length ts. h \<notin> dom (ts ! R)"
    proof (intro allI impI)
      fix R assume R: "R < length ts"
      then have "h \<notin> dom ((ts @ [t]) ! R)" using snoc.prems(2) True by simp
      then show "h \<notin> dom (ts ! R)" using R by (simp add: nth_append)
    qed
    then have "merge_indexing ts h = None" by (rule merge_indexing_none)
    then show ?thesis using True
      by (simp add: merge_indexing_snoc map_add_def split: option.splits)
  next
    case False
    then have Q: "Q < length ts" using snoc.prems(1) by simp
    have others: "\<forall>R<length ts. R \<noteq> Q \<longrightarrow> h \<notin> dom (ts ! R)"
    proof (intro allI impI)
      fix R assume R: "R < length ts" "R \<noteq> Q"
      then have "h \<notin> dom ((ts @ [t]) ! R)" using snoc.prems(2) by simp
      then show "h \<notin> dom (ts ! R)" using R by (simp add: nth_append)
    qed
    have "h \<notin> dom ((ts @ [t]) ! length ts)"
      using snoc.prems(2)[rule_format, of "length ts"] False by simp
    then have "t h = None" by (simp add: domIff)
    then show ?thesis
      using snoc.IH[OF Q others] Q by (simp add: merge_indexing_snoc map_add_def nth_append)
  qed
qed

lemma distinct_concat_nth:
  "distinct (concat xss) \<Longrightarrow> i < j \<Longrightarrow> j < length xss \<Longrightarrow> set (xss ! i) \<inter> set (xss ! j) = {}"
proof (induction xss arbitrary: i j)
  case Nil
  then show ?case by simp
next
  case (Cons xs xss)
  obtain j' where j': "j = Suc j'" using Cons.prems(2) by (cases j) auto
  show ?case
  proof (cases i)
    case 0
    have "xss ! j' \<in> set xss" using Cons.prems(3) j' by simp
    then have "set (xss ! j') \<subseteq> set (concat xss)" by auto
    then show ?thesis using Cons.prems(1) 0 j' by auto
  next
    case (Suc i')
    then show ?thesis using Cons.IH[of i' j'] Cons.prems j' by simp
  qed
qed

lemma single_owner_disjoint:
  assumes "single_owner Ss" and "Q < length Ss" and "R < length Ss" and "R \<noteq> Q"
    and "h \<in> set (physicalIds (Ss ! Q))"
  shows "h \<notin> set (physicalIds (Ss ! R))"
proof -
  have d: "distinct (concat (map physicalIds Ss))" using assms(1) by (simp add: single_owner_def)
  have "set (map physicalIds Ss ! Q) \<inter> set (map physicalIds Ss ! R) = {}"
  proof (cases "Q < R")
    case True
    then show ?thesis using distinct_concat_nth[OF d, of Q R] assms(3) by simp
  next
    case False
    then have "R < Q" using assms(4) by simp
    then show ?thesis using distinct_concat_nth[OF d, of R Q] assms(2) by auto
  qed
  then show ?thesis using assms(2,3,5) by auto
qed

lemma assign_at_position:
  assumes "i < n" and "P (f i)" and "\<forall>j. i < j \<and> j < n \<longrightarrow> f j \<noteq> f i"
  shows "assign g (filter P (map f [0..<n])) m (f i) =
         Some (g + int (length (filter (\<lambda>j. P (f j)) [0..<i])))"
proof -
  have "[0..<n] = [0..<i] @ [i..<n]"
    using assms(1) upt_add_eq_append[of 0 i "n - i"] by simp
  moreover have "[i..<n] = i # [Suc i..<n]"
    using assms(1) by (simp add: upt_conv_Cons)
  ultimately have split: "[0..<n] = [0..<i] @ i # [Suc i..<n]"
    by simp
  have ids: "filter P (map f [0..<n]) =
             filter P (map f [0..<i]) @ f i # filter P (map f [Suc i..<n])"
    by (subst split) (simp add: assms(2))
  have notin: "f i \<notin> set (filter P (map f [Suc i..<n]))"
  proof
    assume "f i \<in> set (filter P (map f [Suc i..<n]))"
    then have "f i \<in> f ` {Suc i..<n}" by simp
    then obtain j where "j \<in> {Suc i..<n}" "f i = f j" by blast
    then have "i < j \<and> j < n" "f j = f i" by simp_all
    then show False using assms(3) by blast
  qed
  have "length (filter P (map f [0..<i])) = length (filter (\<lambda>j. P (f j)) [0..<i])"
    by (simp add: filter_map comp_def)
  then show ?thesis unfolding ids using assign_at[OF notin] by simp
qed

lemma side_own_range:
  assumes "Manager_init withMPI world rank = Inr m" and "rank < length world"
  shows "fst (sideGlobalIndexRange sd m ! myid_of withMPI rank) =
         (if withMPI
          then (case sd of Fluid \<Rightarrow> fst (fluidGlobalIndexRange_temp world rank)
                         | Solid \<Rightarrow> fst (solidGlobalIndexRange_temp world rank))
          else 0)"
  using assms(2) Manager_init_fields(1,2)[OF assms(1)]
  by (cases sd; cases withMPI)
     (simp_all add: myid_of_def fluidGlobalIndexRange_of_def solidGlobalIndexRange_of_def
        allgather_nth)

lemma side_own_halo:
  assumes "Manager_init withMPI world rank = Inr m" and "rank < length world"
  shows "sideHaloNodesList sd m ! myid_of withMPI rank =
         (if withMPI then haloNodes (collaborator sd (world ! rank)) else Map.empty)"
  using assms(2) Manager_init_fields(13,14)[OF assms(1)]
  by (cases sd; cases withMPI)
     (simp_all add: myid_of_def fluidHaloNodesList_of_def solidHaloNodesList_of_def
        allgather_def solid_halo_local_MPI)

lemma sideTemp_form:
  assumes "Manager_init withMPI world rank = Inr m" and "rank < length world"
  shows "sideIndexing_temp_of sd withMPI world rank =
         Inr (assign (fst (sideGlobalIndexRange sd m ! myid_of withMPI rank))
                (filter (\<lambda>n. n \<notin> dom (sideHaloNodesList sd m ! myid_of withMPI rank))
                   (vertexIds (collaborator sd (world ! rank)))) Map.empty)"
proof (cases withMPI)
  case True
  have F: "haveSolver (fst (world ! rank))" by (rule Manager_init_present(1)[OF assms(1)])
  show ?thesis
    unfolding side_own_range[OF assms] side_own_halo[OF assms]
    using True F assms(2)
    by (cases sd) (simp_all add: fluidIndexing_temp_MPI solidIndexing_temp_MPI physicalIds_def)
next
  case False
  have F: "haveSolver (fst (world ! rank))" by (rule Manager_init_present(1)[OF assms(1)])
  show ?thesis
    unfolding side_own_range[OF assms] side_own_halo[OF assms]
    using False F
    by (cases sd) (simp_all add: fluidIndexing_temp_single solidIndexing_temp_single)
qed

lemma vertexIds_Some:
  "vertexIds (Some S) = map (\<lambda>i. getNodalIndex S (int i)) [0..<nat (nNodes S)]"
  by (simp add: vertexIds_def range_py_def)

lemma halo_owner_exists:
  assumes "halo_owned_elsewhere Ss" and "P < length Ss"
    and "h \<in> set (vertexIds (Ss ! P))" and "h \<in> dom (haloNodes (Ss ! P))"
  shows "\<exists>Q<length Ss. Q \<noteq> P \<and> h \<in> set (physicalIds (Ss ! Q))"
proof -
  have "list_ex (\<lambda>Q. Q \<noteq> P \<and> h \<in> set (physicalIds (Ss ! Q))) [0..<length Ss]"
    using assms unfolding halo_owned_elsewhere_def list_all_iff by auto
  then show ?thesis by (auto simp: list_ex_iff)
qed

lemma prefix_le:
  assumes "list_all (\<lambda>c. 0 \<le> c) cs" and "a \<le> b"
  shows "sum_list (take a cs) \<le> sum_list (take b (cs :: int list))"
proof -
  have "take b cs = take a cs @ take (b - a) (drop a cs)"
    using assms(2) take_add[of a "b - a" cs] by simp
  moreover have "0 \<le> sum_list (take (b - a) (drop a cs))"
  proof (rule sum_list_nonneg)
    fix x assume "x \<in> set (take (b - a) (drop a cs))"
    then have "x \<in> set cs" by (meson in_set_dropD in_set_takeD)
    then show "0 \<le> x" using assms(1) by (simp add: list_all_iff)
  qed
  ultimately show ?thesis by simp
qed

lemma prefix_Suc:
  "r < length cs \<Longrightarrow> sum_list (take (Suc r) cs) = sum_list (take r cs) + (cs ! r :: int)"
  by (simp add: take_Suc_conv_app_nth)

lemma prefix_gap:
  assumes "\<forall>k. a \<le> k \<and> k < b \<longrightarrow> cs ! k = (0::int)" and "a \<le> b" and "b \<le> length cs"
  shows "sum_list (take b cs) = sum_list (take a cs)"
  using assms
proof (induction b)
  case 0
  then show ?case by simp
next
  case (Suc b)
  show ?case
  proof (cases "a = Suc b")
    case True
    then show ?thesis by simp
  next
    case False
    then have ab: "a \<le> b" using Suc.prems(2) by simp
    have "sum_list (take b cs) = sum_list (take a cs)"
      using Suc.IH Suc.prems ab by simp
    moreover have "cs ! b = 0" using Suc.prems(1) ab by simp
    ultimately show ?thesis using Suc.prems(3) by (simp add: prefix_Suc)
  qed
qed

lemma ranges_union:
  assumes "list_all (\<lambda>c. 0 \<le> c) (cs :: int list)" and "\<forall>r<length cs. \<not> H r \<longrightarrow> cs ! r = 0"
    and "k \<le> length cs"
  shows "(\<Union>r\<in>{r. r < k \<and> H r}.
            {sum_list (take r cs)..sum_list (take r cs) + cs ! r - 1}) =
         {0..sum_list (take k cs) - 1}"
  using assms(3)
proof (induction k)
  case 0
  then show ?case by simp
next
  case (Suc k)
  have k: "k < length cs" using Suc.prems by simp
  have IH: "(\<Union>r\<in>{r. r < k \<and> H r}.
               {sum_list (take r cs)..sum_list (take r cs) + cs ! r - 1}) =
            {0..sum_list (take k cs) - 1}"
    using Suc by simp
  have nn: "0 \<le> sum_list (take k cs)"
    using prefix_le[OF assms(1), of 0 k] by simp
  have ck: "0 \<le> cs ! k" using assms(1) k by (simp add: list_all_length)
  show ?case
  proof (cases "H k")
    case True
    have "{r. r < Suc k \<and> H r} = insert k {r. r < k \<and> H r}"
      using True by (auto simp: less_Suc_eq)
    then have "(\<Union>r\<in>{r. r < Suc k \<and> H r}.
                  {sum_list (take r cs)..sum_list (take r cs) + cs ! r - 1}) =
               {sum_list (take k cs)..sum_list (take k cs) + cs ! k - 1}
                 \<union> {0..sum_list (take k cs) - 1}"
      using IH by simp
    also have "\<dots> = {0..sum_list (take (Suc k) cs) - 1}"
      using nn ck by (auto simp: prefix_Suc[OF k])
    finally show ?thesis .
  next
    case False
    have "{r. r < Suc k \<and> H r} = {r. r < k \<and> H r}"
      using False by (auto simp: less_Suc_eq)
    moreover have "cs ! k = 0" using assms(2) k False by simp
    ultimately show ?thesis using IH by (simp add: prefix_Suc[OF k])
  qed
qed

lemma ranges_partition:
  assumes len: "length rs = length cs"
    and rs: "\<forall>r<length cs. rs ! r =
               (if H r then (sum_list (take r cs), sum_list (take r cs) + cs ! r - 1) else (0, 0))"
    and nonneg: "list_all (\<lambda>c. 0 \<le> c) cs"
    and zero: "\<forall>r<length cs. \<not> H r \<longrightarrow> cs ! r = 0"
  shows "\<forall>r<length rs. \<forall>r'<length rs. H r \<and> H r' \<and> r \<noteq> r' \<longrightarrow>
           range_set (rs ! r) \<inter> range_set (rs ! r') = {}"
    and "\<forall>r<length rs. \<forall>r'<length rs.
           H r \<and> H r' \<and> r < r' \<and> (\<forall>k. r < k \<and> k < r' \<longrightarrow> \<not> H k) \<longrightarrow>
           fst (rs ! r') = snd (rs ! r) + 1"
    and "(\<Union>r\<in>{r. r < length rs \<and> H r}. range_set (rs ! r)) =
           {0..sum_list cs - 1}"
proof -
  have ordered: "snd (rs ! r) < fst (rs ! r')"
    if "r < r'" "r' < length cs" "H r" "H r'" for r r'
  proof -
    have "sum_list (take (Suc r) cs) \<le> sum_list (take r' cs)"
      using prefix_le[OF nonneg, of "Suc r" r'] that(1) by simp
    then show ?thesis using rs that by (simp add: prefix_Suc)
  qed
  show "\<forall>r<length rs. \<forall>r'<length rs. H r \<and> H r' \<and> r \<noteq> r' \<longrightarrow>
          range_set (rs ! r) \<inter> range_set (rs ! r') = {}"
  proof (intro allI impI, elim conjE)
    fix r r' assume a: "r < length rs" "r' < length rs" "H r" "H r'" "r \<noteq> r'"
    show "range_set (rs ! r) \<inter> range_set (rs ! r') = {}"
    proof (cases "r < r'")
      case True
      then show ?thesis using ordered[of r r'] a len by (auto simp: range_set_def)
    next
      case False
      then have "r' < r" using a(5) by simp
      then show ?thesis using ordered[of r' r] a len by (auto simp: range_set_def)
    qed
  qed
  show "\<forall>r<length rs. \<forall>r'<length rs.
          H r \<and> H r' \<and> r < r' \<and> (\<forall>k. r < k \<and> k < r' \<longrightarrow> \<not> H k) \<longrightarrow>
          fst (rs ! r') = snd (rs ! r) + 1"
  proof (intro allI impI, elim conjE)
    fix r r'
    assume a: "r < length rs" "r' < length rs" "H r" "H r'" "r < r'"
      and gap: "\<forall>k. r < k \<and> k < r' \<longrightarrow> \<not> H k"
    have "\<forall>k. Suc r \<le> k \<and> k < r' \<longrightarrow> cs ! k = 0"
      using gap zero a(2) len by auto
    then have "sum_list (take r' cs) = sum_list (take (Suc r) cs)"
      using prefix_gap[of "Suc r" r' cs] a len by simp
    then show "fst (rs ! r') = snd (rs ! r) + 1"
      using rs a len by (simp add: prefix_Suc)
  qed
  have "(\<Union>r\<in>{r. r < length rs \<and> H r}. range_set (rs ! r)) =
        (\<Union>r\<in>{r. r < length cs \<and> H r}.
            {sum_list (take r cs)..sum_list (take r cs) + cs ! r - 1})"
    using rs len by (auto simp: range_set_def)
  then show "(\<Union>r\<in>{r. r < length rs \<and> H r}. range_set (rs ! r)) = {0..sum_list cs - 1}"
    using ranges_union[OF nonneg zero, of "length cs"] by simp
qed

lemma side_distribution_form:
  assumes "Manager_init withMPI world rank = Inr m"
  shows "sideDistribution sd m =
         map (\<lambda>p. physicalNodes (collaborator sd p)) (group_of withMPI world rank)"
proof (cases withMPI)
  case True
  then show ?thesis
    using Manager_init_fields(3,4)[OF assms]
    by (cases sd)
       (simp_all add: fluidDistribution_of_def solidDistribution_of_def fluidDistribution_MPI
          solidDistribution_MPI group_of_def)
next
  case False
  then show ?thesis
    using Manager_init_fields(3,4)[OF assms]
    by (cases sd) (simp_all add: single_distributions group_of_def split: if_splits)
qed

lemma side_processors_form:
  assumes "Manager_init withMPI world rank = Inr m"
  shows "withMPI \<Longrightarrow> r < length world \<Longrightarrow>
           int r \<in> set (sideInterfaceProcessors sd m) \<longleftrightarrow> haveInterface (collaborator sd (world ! r))"
    and "\<not> withMPI \<Longrightarrow> sideInterfaceProcessors sd m = [0]"
  using Manager_init_fields(5,6)[OF assms]
  by (cases sd;
      simp add: fluidInterfaceProcessors_of_def solidInterfaceProcessors_of_def processors_mem
        processors_single)+

lemma side_ranges_single:
  assumes "Manager_init False world rank = Inr m"
  shows "sideGlobalIndexRange sd m = [(0, sideTotal sd m - 1)]"
  using Manager_init_fields(1,2,9,10)[OF assms]
  by (cases sd)
     (simp_all add: fluidGlobalIndexRange_of_def solidGlobalIndexRange_of_def single_totals
        nLocalFluidInterfacePhysicalNodes_of_def)

lemma side_ranges_bridge:
  assumes "Manager_init withMPI world rank = Inr m" and "rank < length world"
    and "sd = Fluid \<or> \<not> withMPI"
  shows "length (sideGlobalIndexRange sd m) = length (sideDistribution sd m)"
    and "\<forall>r<length (sideDistribution sd m).
           sideGlobalIndexRange sd m ! r =
             (if int r \<in> set (sideInterfaceProcessors sd m)
              then (sum_list (take r (sideDistribution sd m)),
                    sum_list (take r (sideDistribution sd m)) + sideDistribution sd m ! r - 1)
              else (0, 0))"
    and "sideTotal sd m = sum_list (sideDistribution sd m)"
proof -
  note d = side_distribution_form[OF assms(1), of sd]
  show "sideTotal sd m = sum_list (sideDistribution sd m)"
  proof (cases withMPI)
    case True
    then show ?thesis using sideTotal_MPI[of world rank m sd] assms(1) d
      by (simp add: group_of_def)
  next
    case False
    then show ?thesis using sideTotal_single[of world rank m sd] assms(1) d
      by (simp add: group_of_def)
  qed
  show "length (sideGlobalIndexRange sd m) = length (sideDistribution sd m)"
  proof (cases withMPI)
    case True
    then have "sd = Fluid" using assms(3) by simp
    then show ?thesis
      using True d Manager_init_fields(1)[OF assms(1)]
      by (simp add: group_of_def fluidGlobalIndexRange_MPI)
  next
    case False
    then show ?thesis using side_ranges_single[of world rank m sd] assms(1) d
      by (simp add: group_of_def)
  qed
  show "\<forall>r<length (sideDistribution sd m).
           sideGlobalIndexRange sd m ! r =
             (if int r \<in> set (sideInterfaceProcessors sd m)
              then (sum_list (take r (sideDistribution sd m)),
                    sum_list (take r (sideDistribution sd m)) + sideDistribution sd m ! r - 1)
              else (0, 0))"
  proof (cases withMPI)
    case True
    then have sd: "sd = Fluid" using assms(3) by simp
    have init: "Manager_init True world rank = Inr m" using assms(1) True by simp
    show ?thesis
      unfolding d
      using True sd Manager_init_fields(1)[OF init] side_processors_form(1)[OF init, of _ Fluid]
      by (simp add: group_of_def fluidGlobalIndexRange_MPI fluid_range_temp)
  next
    case False
    have init: "Manager_init False world rank = Inr m" using assms(1) False by simp
    have tot: "sideTotal sd m = physicalNodes (collaborator sd (world ! rank))"
      by (rule sideTotal_single[OF init])
    show ?thesis
      unfolding d
      using False side_ranges_single[OF init, of sd] side_processors_form(2)[OF init, of sd] tot
      by (simp add: group_of_def)
  qed
qed

section \<open>Properties\<close>

text \<open>
  C1, at an input where it fails. Two ranks with a communicator; the solid collaborator of
  rank 0 has three vertices, identifiers 10, 11 and 12, of which 12 is a halo node, and
  reports two physical nodes; that of rank 1 has the two vertices 12 and 13. The solid
  distribution vector is \<open>[2, 2]\<close>, and the solid range of rank 0 comes out as \<open>(0, 2)\<close>:
  its stop is \<open>start + nLocalSolidInterfaceNodes - 1\<close> (line 200), where the fluid side
  (line 189) uses the physical count and would give \<open>(0, 1)\<close>.
\<close>

theorem solid_range_stop_counts_halo:
  "map_sum id solidGlobalIndexRange
     (Manager_init True
        [(Some (plain_solver 4 0), Some (halo_solver 3 2 10 12)),
         (Some (plain_solver 0 0), Some (plain_solver 2 12))] 0) = Inr [(0, 2), (2, 3)]
   \<and> map_sum id solidPhysicalInterfaceNodesDistribution
     (Manager_init True
        [(Some (plain_solver 4 0), Some (halo_solver 3 2 10 12)),
         (Some (plain_solver 0 0), Some (plain_solver 2 12))] 0) = Inr [2, 2]"
proof -
  let ?W = "[(Some (plain_solver 4 0), Some (halo_solver 3 2 10 12)),
         (Some (plain_solver 0 0), Some (plain_solver 2 12))]"
  obtain m where m: "Manager_init True ?W 0 = Inr m"
    using Manager_init_succeeds[of 0 ?W True] by (auto simp: haveSolver_def)
  have "solidGlobalIndexRange m = [(0, 2), (2, 3)]"
    unfolding Manager_init_fields(2)[OF m]
    by (simp add: solidGlobalIndexRange_of_def allgather_def solid_range_temp haveInterface_def
          physicalNodes_def nLocalInterfaceNodes_def)
  moreover have "solidPhysicalInterfaceNodesDistribution m = [2, 2]"
    using Manager_init_fields(4)[OF m]
    by (simp add: solidDistribution_of_def solidDistribution_MPI physicalNodes_def)
  ultimately show ?thesis by (simp only: m) simp
qed

text \<open>
  C2, as stated, fails: two ranks with fluid physical counts 2 and 0, rank 1 hosting no
  interface node. The stored ranges are \<open>(0, 1)\<close> and \<open>(0, 0)\<close>; the second is not
  empty and shares the index 0 with the first.
\<close>

theorem placeholder_range_overlaps:
  "map_sum id (\<lambda>m. (fluidGlobalIndexRange m,
                     range_set (fluidGlobalIndexRange m ! 0)
                       \<inter> range_set (fluidGlobalIndexRange m ! 1)))
     (Manager_init True [(Some (plain_solver 2 0), None), (Some (plain_solver 0 0), None)] 0)
   = Inr ([(0, 1), (0, 0)], {0})"
proof -
  let ?W = "[(Some (plain_solver 2 0), None), (Some (plain_solver 0 0), None)]"
  obtain m where m: "Manager_init True ?W 0 = Inr m"
    using Manager_init_succeeds[of 0 ?W True] by (auto simp: haveSolver_def)
  have rs: "fluidGlobalIndexRange m = [(0, 1), (0, 0)]"
    unfolding Manager_init_fields(1)[OF m]
    by (simp add: fluidGlobalIndexRange_of_def allgather_def fluid_range_temp haveInterface_def
          physicalNodes_def)
  have "range_set (0, 1) \<inter> range_set (0, 0) = {0::int}"
    by (auto simp: range_set_def)
  then show ?thesis by (simp only: m) (simp add: rs)
qed

text \<open>
  C2, amended. On the fluid side in both modes, and on the solid side without a
  communicator, when every process of the run reports a non-negative physical count and,
  with a communicator, a rank whose collaborator has no nodes reports no physical node:
  with a communicator a rank is among the side's interface processes exactly when its
  collaborator has nodes, and without one the process is always among them and its range
  is \<open>(0, total - 1)\<close>, empty when the total is 0; a rank among the interface processes
  has the range from the sum of the counts of the lower ranks to that sum plus its own
  count minus one; a rank outside them stores the placeholder \<open>(0, 0)\<close>; the ranges of
  the ranks among them are pairwise disjoint, each starts right after the stop of the
  previous such rank, and their union is the interval from 0 to the total minus one.
\<close>

theorem ranges_partition_interface_processes:
  assumes "Manager_init withMPI world rank = Inr m" and "rank < length world"
    and "sd = Fluid \<or> \<not> withMPI"
    and "list_all (\<lambda>p. 0 \<le> physicalNodes (collaborator sd p)) (group_of withMPI world rank)"
    and "withMPI \<longrightarrow>
           list_all (\<lambda>p. haveInterface (collaborator sd p)
                          \<or> physicalNodes (collaborator sd p) = 0) world"
  shows "(withMPI \<longrightarrow>
            (\<forall>r<length world. (int r \<in> set (sideInterfaceProcessors sd m))
                                = haveInterface (collaborator sd (world ! r))))
       \<and> (\<not> withMPI \<longrightarrow>
            sideInterfaceProcessors sd m = [0]
            \<and> sideGlobalIndexRange sd m = [(0, sideTotal sd m - 1)])
       \<and> (\<forall>r<length (sideGlobalIndexRange sd m).
            int r \<in> set (sideInterfaceProcessors sd m) \<longrightarrow>
            sideGlobalIndexRange sd m ! r =
              (sum_list (take r (sideDistribution sd m)),
               sum_list (take r (sideDistribution sd m)) + sideDistribution sd m ! r - 1))
       \<and> (\<forall>r<length (sideGlobalIndexRange sd m).
            int r \<notin> set (sideInterfaceProcessors sd m) \<longrightarrow>
            sideGlobalIndexRange sd m ! r = (0, 0))
       \<and> (\<forall>r<length (sideGlobalIndexRange sd m). \<forall>r'<length (sideGlobalIndexRange sd m).
            int r \<in> set (sideInterfaceProcessors sd m)
            \<and> int r' \<in> set (sideInterfaceProcessors sd m) \<and> r \<noteq> r' \<longrightarrow>
            range_set (sideGlobalIndexRange sd m ! r)
              \<inter> range_set (sideGlobalIndexRange sd m ! r') = {})
       \<and> (\<forall>r<length (sideGlobalIndexRange sd m). \<forall>r'<length (sideGlobalIndexRange sd m).
            int r \<in> set (sideInterfaceProcessors sd m)
            \<and> int r' \<in> set (sideInterfaceProcessors sd m) \<and> r < r'
            \<and> (\<forall>k. r < k \<and> k < r' \<longrightarrow> int k \<notin> set (sideInterfaceProcessors sd m)) \<longrightarrow>
            fst (sideGlobalIndexRange sd m ! r') = snd (sideGlobalIndexRange sd m ! r) + 1)
       \<and> (\<Union>r\<in>{r. r < length (sideGlobalIndexRange sd m)
                     \<and> int r \<in> set (sideInterfaceProcessors sd m)}.
             range_set (sideGlobalIndexRange sd m ! r))
           = {0..sideTotal sd m - 1}"
proof -
  let ?rs = "sideGlobalIndexRange sd m"
  let ?cs = "sideDistribution sd m"
  let ?H = "\<lambda>r. int r \<in> set (sideInterfaceProcessors sd m)"
  note b = side_ranges_bridge[OF assms(1,2,3)]
  note cs = side_distribution_form[OF assms(1), of sd]
  have nonneg: "list_all (\<lambda>c. 0 \<le> c) ?cs"
    using assms(4) unfolding cs by (simp add: list_all_iff)
  have zero: "\<forall>r<length ?cs. \<not> ?H r \<longrightarrow> ?cs ! r = 0"
  proof (intro allI impI)
    fix r assume r: "r < length ?cs" and nH: "\<not> ?H r"
    have mpi: withMPI
    proof (rule ccontr)
      assume "\<not> withMPI"
      then have "sideInterfaceProcessors sd m = [0]" "length ?cs = 1"
        using side_processors_form(2)[OF assms(1), of sd] cs by (simp_all add: group_of_def)
      then show False using r nH by simp
    qed
    have rw: "r < length world" using r mpi unfolding cs by (simp add: group_of_def)
    have "\<not> haveInterface (collaborator sd (world ! r))"
      using side_processors_form(1)[OF assms(1) mpi rw, of sd] nH by simp
    then have "physicalNodes (collaborator sd (world ! r)) = 0"
      using assms(5) mpi rw by (auto simp: list_all_length)
    then show "?cs ! r = 0" using rw mpi unfolding cs by (simp add: group_of_def)
  qed
  have c1: "withMPI \<longrightarrow>
              (\<forall>r<length world. ?H r = haveInterface (collaborator sd (world ! r)))"
    using side_processors_form(1)[OF assms(1), of _ sd] by blast
  have c2: "\<not> withMPI \<longrightarrow>
              sideInterfaceProcessors sd m = [0] \<and> ?rs = [(0, sideTotal sd m - 1)]"
    using side_processors_form(2)[OF assms(1), of sd] side_ranges_single[of world rank m sd]
      assms(1) by auto
  have c3: "\<forall>r<length ?rs. ?H r \<longrightarrow>
              ?rs ! r = (sum_list (take r ?cs), sum_list (take r ?cs) + ?cs ! r - 1)"
    using b(1,2) by simp
  have c4: "\<forall>r<length ?rs. \<not> ?H r \<longrightarrow> ?rs ! r = (0, 0)"
    using b(1,2) by simp
  show ?thesis
    using c1 c2 c3 c4 ranges_partition[of ?rs ?cs ?H, OF b(1) b(2) nonneg zero]
    unfolding b(3) by blast
qed

theorem ranges_partition_interface_processes_witness:
  "(0::nat) < length [(Some (plain_solver 4 0), Some (plain_solver 4 0)),
                      (Some (plain_solver 0 0), None), (Some (plain_solver 6 4), None)]
   \<and> list_all (\<lambda>p. 0 \<le> physicalNodes (collaborator Fluid p))
        (group_of True
           [(Some (plain_solver 4 0), Some (plain_solver 4 0)),
            (Some (plain_solver 0 0), None), (Some (plain_solver 6 4), None)] 0)
   \<and> list_all (\<lambda>p. haveInterface (collaborator Fluid p)
                     \<or> physicalNodes (collaborator Fluid p) = 0)
        [(Some (plain_solver 4 0), Some (plain_solver 4 0)),
         (Some (plain_solver 0 0), None), (Some (plain_solver 6 4), None)]
   \<and> map_sum id (\<lambda>m. (fluidInterfaceProcessors m,
                       range_set (fluidGlobalIndexRange m ! 0)
                         \<inter> range_set (fluidGlobalIndexRange m ! 2),
                       fst (fluidGlobalIndexRange m ! 2) - snd (fluidGlobalIndexRange m ! 0),
                       range_set (fluidGlobalIndexRange m ! 0)
                         \<union> range_set (fluidGlobalIndexRange m ! 2)))
        (Manager_init True
           [(Some (plain_solver 4 0), Some (plain_solver 4 0)),
            (Some (plain_solver 0 0), None), (Some (plain_solver 6 4), None)] 0)
       = Inr ([0, 2], {}, 1, {0..9})
   \<and> map_sum id (\<lambda>m. (solidInterfaceProcessors m, solidGlobalIndexRange m,
                       range_set (solidGlobalIndexRange m ! 0)))
        (Manager_init False [(Some (plain_solver 3 0), Some (plain_solver 0 100))] 0)
       = Inr ([0], [(0, - 1)], {})"
proof -
  let ?W = "[(Some (plain_solver 4 0), Some (plain_solver 4 0)),
             (Some (plain_solver 0 0), None), (Some (plain_solver 6 4), None)]"
  let ?W1 = "[(Some (plain_solver 3 0), Some (plain_solver 0 100))]"
  have r: "(0::nat) < length ?W" by simp
  have v: "list_all (\<lambda>p. 0 \<le> physicalNodes (collaborator Fluid p)) (group_of True ?W 0)"
    by (simp add: physicalNodes_def group_of_def)
  have v': "list_all (\<lambda>p. haveInterface (collaborator Fluid p)
                          \<or> physicalNodes (collaborator Fluid p) = 0) ?W"
    by (simp add: physicalNodes_def haveInterface_def)
  obtain m where m: "Manager_init True ?W 0 = Inr m"
    using Manager_init_succeeds[of 0 ?W True] by (auto simp: haveSolver_def)
  have ip: "fluidInterfaceProcessors m = [0, 2]"
    unfolding Manager_init_fields(5)[OF m]
    by (simp add: fluidInterfaceProcessors_of_def processors_def allgather_def sendBuf_def
          haveInterface_def)
  have len: "length (fluidGlobalIndexRange m) = 3"
    unfolding Manager_init_fields(1)[OF m] by (simp add: fluidGlobalIndexRange_MPI)
  have tot: "nFluidInterfacePhysicalNodes m = 10"
    using sideTotal_MPI[OF m, of Fluid] by (simp add: physicalNodes_def)
  have th: "(\<forall>r<length (fluidGlobalIndexRange m). \<forall>r'<length (fluidGlobalIndexRange m).
            int r \<in> set (fluidInterfaceProcessors m)
            \<and> int r' \<in> set (fluidInterfaceProcessors m) \<and> r \<noteq> r' \<longrightarrow>
            range_set (fluidGlobalIndexRange m ! r)
              \<inter> range_set (fluidGlobalIndexRange m ! r') = {})
       \<and> (\<forall>r<length (fluidGlobalIndexRange m). \<forall>r'<length (fluidGlobalIndexRange m).
            int r \<in> set (fluidInterfaceProcessors m)
            \<and> int r' \<in> set (fluidInterfaceProcessors m) \<and> r < r'
            \<and> (\<forall>k. r < k \<and> k < r' \<longrightarrow> int k \<notin> set (fluidInterfaceProcessors m)) \<longrightarrow>
            fst (fluidGlobalIndexRange m ! r') = snd (fluidGlobalIndexRange m ! r) + 1)
       \<and> (\<Union>r\<in>{r. r < length (fluidGlobalIndexRange m)
                     \<and> int r \<in> set (fluidInterfaceProcessors m)}.
             range_set (fluidGlobalIndexRange m ! r))
           = {0..nFluidInterfacePhysicalNodes m - 1}"
  proof -
    have s3: "Fluid = Fluid \<or> \<not> True" by simp
    have v5: "True \<longrightarrow> list_all (\<lambda>p. haveInterface (collaborator Fluid p)
                                      \<or> physicalNodes (collaborator Fluid p) = 0) ?W"
      using v' by simp
    note full = ranges_partition_interface_processes[OF m r s3 v v5]
    show ?thesis
      using full[THEN conjunct2, THEN conjunct2, THEN conjunct2, THEN conjunct2] by simp
  qed
  have d: "range_set (fluidGlobalIndexRange m ! 0) \<inter> range_set (fluidGlobalIndexRange m ! 2) = {}"
    using th[THEN conjunct1, rule_format, of 0 2] ip len by simp
  have "\<forall>k. (0::nat) < k \<and> k < 2 \<longrightarrow> int k \<notin> set (fluidInterfaceProcessors m)"
    unfolding ip by auto
  then have c: "fst (fluidGlobalIndexRange m ! 2) = snd (fluidGlobalIndexRange m ! 0) + 1"
    using th[THEN conjunct2, THEN conjunct1, rule_format, of 0 2] ip len by simp
  have "{r. r < length (fluidGlobalIndexRange m) \<and> int r \<in> set (fluidInterfaceProcessors m)}
        = {0, 2}"
    unfolding ip len by auto
  then have u: "range_set (fluidGlobalIndexRange m ! 0) \<union> range_set (fluidGlobalIndexRange m ! 2)
                = {0..9}"
    using th[THEN conjunct2, THEN conjunct2] tot by simp
  obtain m1 where m1: "Manager_init False ?W1 0 = Inr m1"
    using Manager_init_succeeds[of 0 ?W1 False]
    by (auto simp: haveSolver_def int64_def physicalNodes_def)
  have t1: "sideTotal Solid m1 = 0"
    using sideTotal_single[OF m1, of Solid] by (simp add: physicalNodes_def)
  have s: "solidInterfaceProcessors m1 = [0] \<and> solidGlobalIndexRange m1 = [(0, - 1)]"
    using ranges_partition_interface_processes[of False ?W1 0 m1 Solid, OF m1,
            THEN conjunct2, THEN conjunct1] t1
    by (simp add: physicalNodes_def group_of_def)
  then have e: "range_set (solidGlobalIndexRange m1 ! 0) = {}"
    by (simp add: range_set_def)
  show ?thesis using v v' ip d c u s e by (simp only: m m1) simp
qed

text \<open>
  C3. Under the decomposition contract of a side, over the processes of the run, the
  merged map of that side on a constructed manager has exactly as many entries as the
  total physical node count of the side, one per key, and no two keys share a global
  index; the global indices are those from 0 to the total minus one.
\<close>

theorem merged_map_one_entry_per_physical_node:
  assumes "Manager_init withMPI world rank = Inr m" and "rank < length world"
    and "decomposition_contract sd (group_of withMPI world rank)"
  shows "int (card (dom (sideIndexing sd m))) = sideTotal sd m
       \<and> inj_on (sideIndexing sd m) (dom (sideIndexing sd m))
       \<and> ran (sideIndexing sd m) = {0..sideTotal sd m - 1}"
proof -
  let ?ids = "concat (map (\<lambda>p. physicalIds (collaborator sd p)) (group_of withMPI world rank))"
  have d: "distinct ?ids"
    using assms(3) by (simp add: decomposition_contract_def single_owner_def comp_def)
  show ?thesis
    unfolding sideIndexing_contract[OF assms(1,3)]
    using assign_distinct[OF d, of 0] by simp
qed

theorem merged_map_one_entry_per_physical_node_witness:
  "decomposition_contract Fluid
     (group_of True
        [(Some (halo_solver 3 2 10 12), Some (plain_solver 2 100)),
         (Some (plain_solver 2 12), None)] 0)
   \<and> map_sum id (\<lambda>m. int (card (dom (fluidIndexing m))))
        (Manager_init True
           [(Some (halo_solver 3 2 10 12), Some (plain_solver 2 100)),
            (Some (plain_solver 2 12), None)] 0) = Inr 4
   \<and> map_sum id (\<lambda>m. ran (fluidIndexing m))
        (Manager_init True
           [(Some (halo_solver 3 2 10 12), Some (plain_solver 2 100)),
            (Some (plain_solver 2 12), None)] 0) = Inr {0..3}"
proof -
  let ?W = "[(Some (halo_solver 3 2 10 12), Some (plain_solver 2 100)),
             (Some (plain_solver 2 12), None)]"
  have c: "decomposition_contract Fluid (group_of True ?W 0)"
    by (simp add: group_of_def decomposition_contract_def counts_consistent_def single_owner_def
        halo_owned_elsewhere_def physicalIds_def vertexIds_def haloNodes_def range_py_def
        physicalNodes_def eval_nat_numeral)
  obtain m where m: "Manager_init True ?W 0 = Inr m"
    using Manager_init_succeeds[of 0 ?W True] by (auto simp: haveSolver_def)
  have t: "sideTotal Fluid m = 4"
    unfolding sideTotal_MPI[OF m] by (simp add: physicalNodes_def)
  show ?thesis
    using merged_map_one_entry_per_physical_node[OF m _ c] c t
    by (simp only: m) simp
qed

text \<open>
  C4, as stated, fails: without a communicator the solid role sets are \<open>[0]\<close>, so the
  constructor reads \<open>SolidSolver.haloNodeList\<close> (line 148), and with \<open>SolidSolver = None\<close>
  that read raises.
\<close>

theorem single_process_without_solid_fails:
  "Manager_init False [(Some (plain_solver 3 0), None)] 0 = Inl AttributeError"
  by (simp add: Manager_init_def Let_def haveSolver_def solidSolverProcessors_of_def
        processors_def myid_of_def)

text \<open>
  C4, amended. Without a communicator, with a fluid collaborator whose physical count fits
  a signed 64-bit integer and a solid collaborator that is present and reports no node at
  all, construction completes; the solid total physical node count is 0 and the merged
  solid map is empty, while both solid role sets are \<open>[0]\<close>.
\<close>

theorem single_process_empty_solid:
  assumes "nNodes S = 0" and "nPhysicalNodes S = 0" and "int64 (nPhysicalNodes F)"
  shows "\<exists>m. Manager_init False [(Some F, Some S)] 0 = Inr m
             \<and> nSolidInterfacePhysicalNodes m = 0
             \<and> solidIndexing m = Map.empty
             \<and> solidSolverProcessors m = [0]
             \<and> solidInterfaceProcessors m = [0]"
proof -
  obtain m where m: "Manager_init False [(Some F, Some S)] 0 = Inr m"
    using Manager_init_succeeds[of 0 "[(Some F, Some S)]" False] assms
    by (auto simp: haveSolver_def int64_def physicalNodes_def)
  have "nSolidInterfacePhysicalNodes m = 0"
    unfolding Manager_init_fields(10)[OF m]
    by (simp add: nSolidInterfacePhysicalNodes_of_def mpiAllReduce_def
          nLocalSolidInterfacePhysicalNodes_of_def physicalNodes_def assms)
  moreover have "solidIndexing m = Map.empty"
    unfolding solidIndexing_single[OF m] by (simp add: vertexIds_def range_py_def assms)
  moreover have "solidSolverProcessors m = [0]"
    unfolding Manager_init_fields(8)[OF m]
    by (simp add: solidSolverProcessors_of_def processors_def)
  moreover have "solidInterfaceProcessors m = [0]"
    unfolding Manager_init_fields(6)[OF m]
    by (simp add: solidInterfaceProcessors_of_def processors_def)
  ultimately show ?thesis using m by blast
qed

theorem single_process_empty_solid_witness:
  "nNodes (plain_solver 0 0) = 0 \<and> nPhysicalNodes (plain_solver 0 0) = 0
   \<and> int64 (nPhysicalNodes (plain_solver 3 0))
   \<and> map_sum id nSolidInterfacePhysicalNodes
        (Manager_init False [(Some (plain_solver 3 0), Some (plain_solver 0 0))] 0) = Inr 0
   \<and> map_sum id solidSolverProcessors
        (Manager_init False [(Some (plain_solver 3 0), Some (plain_solver 0 0))] 0) = Inr [0]
   \<and> map_sum id solidInterfaceProcessors
        (Manager_init False [(Some (plain_solver 3 0), Some (plain_solver 0 0))] 0) = Inr [0]
   \<and> map_sum id (\<lambda>m. dom (solidIndexing m))
        (Manager_init False [(Some (plain_solver 3 0), Some (plain_solver 0 0))] 0) = Inr {}"
  using single_process_empty_solid[of "plain_solver 0 0" "plain_solver 3 0"]
  by (auto simp: int64_def)

text \<open>
  C5, as stated, fails without a communicator: the constructor replaces the halo sets by
  \<open>[{}]\<close> (lines 152 to 154), so the test of line 220 passes over nothing. A single
  process whose fluid collaborator has the vertices 10, 11 and 12 and the halo identifier
  12 contributes the key 12, with the global index 2, and the merged map holds it.
\<close>

theorem halo_id_indexed_without_communicator:
  "haloNodes (collaborator Fluid
       ([(Some (halo_solver 3 2 10 12), Some (plain_solver 0 0))] ! 0)) 12 = Some 0
   \<and> map_sum id (\<lambda>t. t 12)
        (sideIndexing_temp_of Fluid False
           [(Some (halo_solver 3 2 10 12), Some (plain_solver 0 0))] 0) = Inr (Some 2)
   \<and> map_sum id (\<lambda>m. (fluidHaloNodesList m, fluidIndexing m 12))
        (Manager_init False
           [(Some (halo_solver 3 2 10 12), Some (plain_solver 0 0))] 0)
       = Inr ([Map.empty], Some 2)"
proof -
  let ?W = "[(Some (halo_solver 3 2 10 12), Some (plain_solver 0 0))]"
  obtain m where m: "Manager_init False ?W 0 = Inr m"
    using Manager_init_succeeds[of 0 ?W False]
    by (auto simp: haveSolver_def int64_def physicalNodes_def)
  have t: "sideIndexing_temp_of Fluid False ?W 0 = Inr [10 \<mapsto> 0, 11 \<mapsto> 1, 12 \<mapsto> 2]"
    by (simp add: fluidIndexing_temp_single haveSolver_def vertexIds_def range_py_def
          eval_nat_numeral)
  have h: "fluidHaloNodesList m = [Map.empty]"
    unfolding Manager_init_fields(13)[OF m] by (simp add: fluidHaloNodesList_of_def)
  have i: "fluidIndexing m 12 = Some 2"
    unfolding fluidIndexing_single[OF m]
    by (simp add: vertexIds_def range_py_def eval_nat_numeral)
  have c: "haloNodes (collaborator Fluid (?W ! 0)) 12 = Some 0"
    by (simp add: haloNodes_def)
  show ?thesis using c h i by (simp only: m t) simp
qed

text \<open>
  C5, amended. On a constructed manager, for either side, the halo set the manager holds
  for the process is the collaborator's with a communicator and the empty set without
  one, and the process contributes a partial map \<open>t\<close> to the merge such that: with a
  communicator no key of \<open>t\<close> is in the halo set of the process's collaborator; without a
  communicator the keys of \<open>t\<close> are the identifiers of all local vertices; a vertex
  position \<open>i\<close> whose identifier is not in the halo set the manager holds (and is not met
  again at a later position, which would overwrite it) receives the start of the process's
  own range plus the number of such positions before \<open>i\<close>; and, with a communicator and
  under the decomposition contract, every local vertex that is a halo node has another
  rank \<open>Q\<close> whose partial map holds it, with the index the merged map gives it.
\<close>

theorem halo_ids_skipped_owned_ids_numbered:
  assumes "Manager_init withMPI world rank = Inr m" and "rank < length world"
  shows "\<exists>t. sideIndexing_temp_of sd withMPI world rank = Inr t
           \<and> sideHaloNodesList sd m ! myid_of withMPI rank =
               (if withMPI then haloNodes (collaborator sd (world ! rank)) else Map.empty)
           \<and> (withMPI \<longrightarrow>
                dom t \<inter> dom (haloNodes (collaborator sd (world ! rank))) = {})
           \<and> (\<not> withMPI \<longrightarrow> dom t = set (vertexIds (collaborator sd (world ! rank))))
           \<and> (\<forall>S i. collaborator sd (world ! rank) = Some S \<and> i < nat (nNodes S)
                  \<and> getNodalIndex S (int i)
                      \<notin> dom (sideHaloNodesList sd m ! myid_of withMPI rank)
                  \<and> (\<forall>j. i < j \<and> j < nat (nNodes S) \<longrightarrow>
                        getNodalIndex S (int j) \<noteq> getNodalIndex S (int i))
                \<longrightarrow> t (getNodalIndex S (int i)) =
                      Some (fst (sideGlobalIndexRange sd m ! myid_of withMPI rank)
                            + int (length (filter
                                (\<lambda>j. getNodalIndex S (int j)
                                       \<notin> dom (sideHaloNodesList sd m ! myid_of withMPI rank))
                                [0..<i]))))
           \<and> (withMPI \<and> decomposition_contract sd world \<longrightarrow>
                (\<forall>h\<in>set (vertexIds (collaborator sd (world ! rank)))
                       \<inter> dom (sideHaloNodesList sd m ! rank).
                   \<exists>Q<length world. Q \<noteq> rank \<and>
                     (\<exists>tQ g. sideIndexing_temp_of sd True world Q = Inr tQ
                             \<and> tQ h = Some g \<and> sideIndexing sd m h = Some g)))"
proof -
  let ?halo = "sideHaloNodesList sd m ! myid_of withMPI rank"
  let ?start = "fst (sideGlobalIndexRange sd m ! myid_of withMPI rank)"
  let ?t = "assign ?start (filter (\<lambda>n. n \<notin> dom ?halo)
                            (vertexIds (collaborator sd (world ! rank)))) Map.empty"
  have t: "sideIndexing_temp_of sd withMPI world rank = Inr ?t"
    by (rule sideTemp_form[OF assms])
  have h: "?halo = (if withMPI then haloNodes (collaborator sd (world ! rank)) else Map.empty)"
    by (rule side_own_halo[OF assms])
  have a: "withMPI \<longrightarrow> dom ?t \<inter> dom (haloNodes (collaborator sd (world ! rank))) = {}"
    using h by (auto simp: dom_assign)
  have a': "\<not> withMPI \<longrightarrow> dom ?t = set (vertexIds (collaborator sd (world ! rank)))"
    using h by (auto simp: dom_assign)
  have b: "\<forall>S i. collaborator sd (world ! rank) = Some S \<and> i < nat (nNodes S)
                \<and> getNodalIndex S (int i) \<notin> dom ?halo
                \<and> (\<forall>j. i < j \<and> j < nat (nNodes S) \<longrightarrow>
                      getNodalIndex S (int j) \<noteq> getNodalIndex S (int i))
              \<longrightarrow> ?t (getNodalIndex S (int i)) =
                    Some (?start + int (length (filter
                              (\<lambda>j. getNodalIndex S (int j) \<notin> dom ?halo) [0..<i])))"
  proof (intro allI impI, elim conjE)
    fix S i
    assume S: "collaborator sd (world ! rank) = Some S" and i: "i < nat (nNodes S)"
      and nh: "getNodalIndex S (int i) \<notin> dom ?halo"
      and last: "\<forall>j. i < j \<and> j < nat (nNodes S) \<longrightarrow>
                   getNodalIndex S (int j) \<noteq> getNodalIndex S (int i)"
    show "?t (getNodalIndex S (int i)) =
          Some (?start + int (length (filter
                    (\<lambda>j. getNodalIndex S (int j) \<notin> dom ?halo) [0..<i])))"
      unfolding S vertexIds_Some
      using assign_at_position[of i "nat (nNodes S)" "\<lambda>n. n \<notin> dom ?halo"
              "\<lambda>i. getNodalIndex S (int i)" ?start Map.empty, OF i nh last]
      by simp
  qed
  have c: "withMPI \<and> decomposition_contract sd world \<longrightarrow>
             (\<forall>h\<in>set (vertexIds (collaborator sd (world ! rank)))
                    \<inter> dom (sideHaloNodesList sd m ! rank).
                \<exists>Q<length world. Q \<noteq> rank \<and>
                  (\<exists>tQ g. sideIndexing_temp_of sd True world Q = Inr tQ
                          \<and> tQ h = Some g \<and> sideIndexing sd m h = Some g))"
  proof (intro impI ballI, elim conjE)
    fix h
    assume mpi: withMPI and contract: "decomposition_contract sd world"
      and h: "h \<in> set (vertexIds (collaborator sd (world ! rank)))
                 \<inter> dom (sideHaloNodesList sd m ! rank)"
    have init: "Manager_init True world rank = Inr m" using assms(1) mpi by simp
    have present: "list_all (\<lambda>p. haveSolver (fst p)) world"
      using Manager_init_present(2)[OF init] by simp
    have halo: "sideHaloNodesList sd m ! rank = haloNodes (collaborator sd (world ! rank))"
      using side_own_halo[OF init assms(2), of sd] by (simp add: myid_of_def)
    have ho: "halo_owned_elsewhere (map (collaborator sd) world)"
      and so: "single_owner (map (collaborator sd) world)"
      using contract by (simp_all add: decomposition_contract_def)
    obtain Q where Q: "Q < length world" "Q \<noteq> rank"
      and hQ: "h \<in> set (physicalIds (collaborator sd (world ! Q)))"
      using halo_owner_exists[OF ho, of rank h] assms(2) h halo by auto
    obtain ts where len: "length ts = length world"
      and ts: "\<forall>r<length world. sideIndexing_temp_of sd True world r = Inr (ts ! r)"
      and mg: "sideIndexing sd m = merge_indexing ts"
      using sideIndexing_MPI_merge[OF init, of sd] by blast
    have doms: "\<And>r. r < length world \<Longrightarrow>
                  dom (ts ! r) = set (physicalIds (collaborator sd (world ! r)))"
      using sideTemp_MPI_dom[OF present] ts by blast
    have others: "\<forall>R<length ts. R \<noteq> Q \<longrightarrow> h \<notin> dom (ts ! R)"
    proof (intro allI impI)
      fix R assume R: "R < length ts" "R \<noteq> Q"
      have "h \<notin> set (physicalIds (map (collaborator sd) world ! R))"
        using single_owner_disjoint[OF so, of Q R h] Q(1) R len hQ by simp
      then show "h \<notin> dom (ts ! R)" using doms[of R] R len by simp
    qed
    have "merge_indexing ts h = (ts ! Q) h"
      using merge_unique_owner[of Q ts h] Q(1) len others by simp
    moreover obtain g where "(ts ! Q) h = Some g"
      using doms[OF Q(1)] hQ by auto
    ultimately show "\<exists>Q<length world. Q \<noteq> rank \<and>
                       (\<exists>tQ g. sideIndexing_temp_of sd True world Q = Inr tQ
                               \<and> tQ h = Some g \<and> sideIndexing sd m h = Some g)"
      using Q ts mg by auto
  qed
  show ?thesis using t h a a' b c by blast
qed

theorem halo_ids_skipped_owned_ids_numbered_witness:
  "(0::nat) < length [(Some (halo_solver 3 2 10 12), Some (plain_solver 2 100)),
                      (Some (plain_solver 2 12), None)]
   \<and> decomposition_contract Fluid
        [(Some (halo_solver 3 2 10 12), Some (plain_solver 2 100)),
         (Some (plain_solver 2 12), None)]
   \<and> map_sum id (\<lambda>t. (t 10, t 11, t 12))
        (sideIndexing_temp_of Fluid True
           [(Some (halo_solver 3 2 10 12), Some (plain_solver 2 100)),
            (Some (plain_solver 2 12), None)] 0) = Inr (Some 0, Some 1, None)
   \<and> map_sum id (\<lambda>t. t 12)
        (sideIndexing_temp_of Fluid True
           [(Some (halo_solver 3 2 10 12), Some (plain_solver 2 100)),
            (Some (plain_solver 2 12), None)] 1) = Inr (Some 2)
   \<and> map_sum id (\<lambda>m. fluidIndexing m 12)
        (Manager_init True
           [(Some (halo_solver 3 2 10 12), Some (plain_solver 2 100)),
            (Some (plain_solver 2 12), None)] 0) = Inr (Some 2)"
proof -
  let ?F0 = "halo_solver 3 2 10 12"
  let ?W = "[(Some ?F0, Some (plain_solver 2 100)), (Some (plain_solver 2 12), None)]"
  have r: "(0::nat) < length ?W" by simp
  have contract: "decomposition_contract Fluid ?W"
    by (simp add: decomposition_contract_def counts_consistent_def single_owner_def
        halo_owned_elsewhere_def physicalIds_def vertexIds_def haloNodes_def range_py_def
        physicalNodes_def eval_nat_numeral)
  obtain m where m: "Manager_init True ?W 0 = Inr m"
    using Manager_init_succeeds[of 0 ?W True] by (auto simp: haveSolver_def)
  have halo: "sideHaloNodesList Fluid m ! 0 = [12 \<mapsto> 0]"
    using side_own_halo[OF m r, of Fluid] by (simp add: myid_of_def haloNodes_def)
  have start: "fst (sideGlobalIndexRange Fluid m ! 0) = 0"
    using side_own_range[OF m r, of Fluid]
    by (simp add: myid_of_def fluid_range_temp haveInterface_def)
  obtain t where t: "sideIndexing_temp_of Fluid True ?W 0 = Inr t"
    and h: "sideHaloNodesList Fluid m ! myid_of True 0 =
              (if True then haloNodes (collaborator Fluid (?W ! 0)) else Map.empty)"
    and a: "True \<longrightarrow> dom t \<inter> dom (haloNodes (collaborator Fluid (?W ! 0))) = {}"
    and a': "\<not> True \<longrightarrow> dom t = set (vertexIds (collaborator Fluid (?W ! 0)))"
    and b: "\<forall>S i. collaborator Fluid (?W ! 0) = Some S \<and> i < nat (nNodes S)
                  \<and> getNodalIndex S (int i)
                      \<notin> dom (sideHaloNodesList Fluid m ! myid_of True 0)
                  \<and> (\<forall>j. i < j \<and> j < nat (nNodes S) \<longrightarrow>
                        getNodalIndex S (int j) \<noteq> getNodalIndex S (int i))
                \<longrightarrow> t (getNodalIndex S (int i)) =
                      Some (fst (sideGlobalIndexRange Fluid m ! myid_of True 0)
                            + int (length (filter
                                (\<lambda>j. getNodalIndex S (int j)
                                       \<notin> dom (sideHaloNodesList Fluid m ! myid_of True 0))
                                [0..<i])))"
    and c: "True \<and> decomposition_contract Fluid ?W \<longrightarrow>
                (\<forall>h\<in>set (vertexIds (collaborator Fluid (?W ! 0)))
                       \<inter> dom (sideHaloNodesList Fluid m ! 0).
                   \<exists>Q<length ?W. Q \<noteq> 0 \<and>
                     (\<exists>tQ g. sideIndexing_temp_of Fluid True ?W Q = Inr tQ
                             \<and> tQ h = Some g \<and> sideIndexing Fluid m h = Some g))"
    using halo_ids_skipped_owned_ids_numbered[OF m r, of Fluid] by blast
  have t10: "t 10 = Some 0"
    using b[rule_format, of ?F0 0] halo start by (simp add: myid_of_def)
  have t11: "t 11 = Some 1"
    using b[rule_format, of ?F0 1] halo start by (simp add: myid_of_def)
  have t12: "t 12 = None"
    using a by (auto simp: haloNodes_def)
  have t1: "sideIndexing_temp_of Fluid True ?W 1 = Inr [12 \<mapsto> 2, 13 \<mapsto> 3]"
    by (simp add: fluidIndexing_temp_MPI haveSolver_def fluid_range_temp haveInterface_def
          physicalNodes_def physicalIds_def vertexIds_def haloNodes_def range_py_def
          eval_nat_numeral)
  have "12 \<in> set (vertexIds (collaborator Fluid (?W ! 0))) \<inter> dom (sideHaloNodesList Fluid m ! 0)"
    using halo by (simp add: vertexIds_def range_py_def eval_nat_numeral)
  then obtain Q tQ g where Q: "Q < length ?W" "Q \<noteq> 0"
    and tQ: "sideIndexing_temp_of Fluid True ?W Q = Inr tQ" "tQ 12 = Some g"
    and mg: "sideIndexing Fluid m 12 = Some g"
    using c contract by blast
  have "Q = 1" using Q by simp
  then have "g = 2" using tQ t1 by simp
  then have merged: "fluidIndexing m 12 = Some 2" using mg by simp
  show ?thesis
    using contract t10 t11 t12 merged
    by (simp only: m t t1) simp
qed

text \<open>
  C6, as stated, fails: the same three identifiers 10, 11 and 12 with the same total of
  three physical nodes, once on a single process in that order, once on two ranks with
  12 on rank 0 and 10, 11 on rank 1. The identifier 12 receives the global index 2 in the
  first run and 0 in the second.
\<close>

theorem other_decomposition_other_indexing:
  "map_sum id (\<lambda>m. fluidIndexing m 12)
     (Manager_init False [(Some (plain_solver 3 10), Some (plain_solver 0 0))] 0) = Inr (Some 2)
   \<and> map_sum id (\<lambda>m. fluidIndexing m 12)
     (Manager_init True [(Some (plain_solver 1 12), None), (Some (plain_solver 2 10), None)] 0)
       = Inr (Some 0)"
proof -
  let ?W1 = "[(Some (plain_solver 3 10), Some (plain_solver 0 0))]"
  let ?W = "[(Some (plain_solver 1 12), None), (Some (plain_solver 2 10), None)]"
  obtain m1 where m1: "Manager_init False ?W1 0 = Inr m1"
    using Manager_init_succeeds[of 0 ?W1 False]
    by (auto simp: haveSolver_def int64_def physicalNodes_def)
  obtain m where m: "Manager_init True ?W 0 = Inr m"
    using Manager_init_succeeds[of 0 ?W True] by (auto simp: haveSolver_def)
  have cc: "counts_consistent (map fst ?W)"
    by (simp add: counts_consistent_def physicalIds_def vertexIds_def haloNodes_def range_py_def
          physicalNodes_def eval_nat_numeral)
  have a: "fluidIndexing m1 12 = Some 2"
    unfolding fluidIndexing_single[OF m1]
    by (simp add: vertexIds_def range_py_def eval_nat_numeral)
  have b: "fluidIndexing m 12 = Some 0"
    unfolding fluidIndexing_MPI[OF m cc]
    by (simp add: physicalIds_def vertexIds_def haloNodes_def range_py_def eval_nat_numeral)
  show ?thesis using a b by (simp only: m m1) simp
qed

text \<open>
  C6, amended. The merged map of a side is the same in a run without a communicator and
  in a run with one when the single process enumerates its vertices in the order of the
  non-halo vertices of rank 0, then rank 1, and so on, and every rank reports as its
  physical count the number of its non-halo vertices.
\<close>

theorem same_enumeration_same_indexing:
  assumes "Manager_init True world rank = Inr m" and "rank < length world"
    and "counts_consistent (map (collaborator sd) world)"
    and "Manager_init False world1 rank1 = Inr m1" and "rank1 < length world1"
    and "vertexIds (collaborator sd (world1 ! rank1)) =
         concat (map (\<lambda>p. physicalIds (collaborator sd p)) world)"
  shows "sideIndexing sd m1 = sideIndexing sd m"
  using sideIndexing_MPI[OF assms(1,3)] sideIndexing_single[OF assms(4), of sd] assms(6)
  by simp

theorem same_enumeration_same_indexing_witness:
  "counts_consistent (map (collaborator Fluid)
      [(Some (halo_solver 3 2 10 12), Some (plain_solver 2 100)), (Some (plain_solver 2 12), None)])
   \<and> vertexIds (collaborator Fluid ([(Some (plain_solver 4 10), Some (plain_solver 2 100))] ! 0)) =
       concat (map (\<lambda>p. physicalIds (collaborator Fluid p))
         [(Some (halo_solver 3 2 10 12), Some (plain_solver 2 100)),
          (Some (plain_solver 2 12), None)])
   \<and> map_sum id fluidIndexing
        (Manager_init False [(Some (plain_solver 4 10), Some (plain_solver 2 100))] 0) =
       map_sum id fluidIndexing
        (Manager_init True
           [(Some (halo_solver 3 2 10 12), Some (plain_solver 2 100)),
            (Some (plain_solver 2 12), None)] 0)
   \<and> map_sum id (\<lambda>m. map (fluidIndexing m) [10, 11, 12, 13])
        (Manager_init True
           [(Some (halo_solver 3 2 10 12), Some (plain_solver 2 100)),
            (Some (plain_solver 2 12), None)] 0) = Inr [Some 0, Some 1, Some 2, Some 3]"
proof -
  let ?W = "[(Some (halo_solver 3 2 10 12), Some (plain_solver 2 100)),
             (Some (plain_solver 2 12), None)]"
  let ?W1 = "[(Some (plain_solver 4 10), Some (plain_solver 2 100))]"
  have cc: "counts_consistent (map (collaborator Fluid) ?W)"
    by (simp add: counts_consistent_def physicalIds_def vertexIds_def haloNodes_def range_py_def
          physicalNodes_def eval_nat_numeral)
  have v: "vertexIds (collaborator Fluid (?W1 ! 0)) =
           concat (map (\<lambda>p. physicalIds (collaborator Fluid p)) ?W)"
    by (simp add: physicalIds_def vertexIds_def haloNodes_def range_py_def eval_nat_numeral)
  obtain m1 where m1: "Manager_init False ?W1 0 = Inr m1"
    using Manager_init_succeeds[of 0 ?W1 False]
    by (auto simp: haveSolver_def int64_def physicalNodes_def)
  obtain m where m: "Manager_init True ?W 0 = Inr m"
    using Manager_init_succeeds[of 0 ?W True] by (auto simp: haveSolver_def)
  have e: "fluidIndexing m1 = fluidIndexing m"
    using same_enumeration_same_indexing[OF m _ cc m1 _ v] by simp
  have "fluidIndexing m1 = [10 \<mapsto> 0, 11 \<mapsto> 1, 12 \<mapsto> 2, 13 \<mapsto> 3]"
    unfolding fluidIndexing_single[OF m1]
    by (simp add: vertexIds_def range_py_def eval_nat_numeral)
  then have f: "map (fluidIndexing m) [10, 11, 12, 13] = [Some 0, Some 1, Some 2, Some 3]"
    using e by simp
  show ?thesis using cc v e f by (simp only: m m1) simp
qed

text \<open>
  C7, as stated, fails on the range of rank 1: the stored pair is \<open>(0, 0)\<close>, which as an
  inclusive range holds the index 0, already owned by rank 0.
\<close>

theorem rank_without_interface_range_not_empty:
  "map_sum id (\<lambda>m. range_set (fluidGlobalIndexRange m ! 1))
     (Manager_init True
        [(Some (plain_solver 4 0), Some (plain_solver 4 0)), (Some (plain_solver 0 0), None),
         (Some (plain_solver 6 4), None)] 0) = Inr {0}"
proof -
  let ?W = "[(Some (plain_solver 4 0), Some (plain_solver 4 0)), (Some (plain_solver 0 0), None),
         (Some (plain_solver 6 4), None)]"
  obtain m where m: "Manager_init True ?W 0 = Inr m"
    using Manager_init_succeeds[of 0 ?W True] by (auto simp: haveSolver_def)
  have "fluidGlobalIndexRange m ! 1 = (0, 0)"
    unfolding Manager_init_fields(1)[OF m]
    by (simp add: fluidGlobalIndexRange_of_def allgather_def fluid_range_temp haveInterface_def)
  then show ?thesis by (simp only: m) (simp add: range_set_def)
qed

text \<open>
  C7, amended. Three ranks with a communicator, each with a fluid collaborator; ranks 0
  and 2 host interface nodes and report 4 and 6 physical nodes, rank 1 hosts none. On every
  rank the fluid ranges are \<open>(0, 3)\<close>, the placeholder \<open>(0, 0)\<close> and \<open>(4, 9)\<close>, and the
  fluid total is 10.
\<close>

theorem three_ranks_4_0_6_ranges:
  assumes "world = [(Some F0, S0), (Some F1, S1), (Some F2, S2)]"
    and "nNodes F0 \<noteq> 0" and "nPhysicalNodes F0 = 4"
    and "nNodes F1 = 0" and "nPhysicalNodes F1 = 0"
    and "nNodes F2 \<noteq> 0" and "nPhysicalNodes F2 = 6"
    and "rank < 3"
  shows "\<exists>m. Manager_init True world rank = Inr m
             \<and> fluidGlobalIndexRange m = [(0, 3), (0, 0), (4, 9)]
             \<and> nFluidInterfacePhysicalNodes m = 10"
proof -
  obtain m where m: "Manager_init True world rank = Inr m"
    using Manager_init_succeeds[of rank world True] assms(1,8) by (auto simp: haveSolver_def)
  have "fluidGlobalIndexRange m = [(0, 3), (0, 0), (4, 9)]"
    unfolding Manager_init_fields(1)[OF m]
    by (simp add: fluidGlobalIndexRange_of_def allgather_def fluid_range_temp haveInterface_def
          physicalNodes_def assms)
  moreover have "nFluidInterfacePhysicalNodes m = 10"
    unfolding Manager_init_fields(9)[OF m]
    by (simp add: nFluidInterfacePhysicalNodes_of_def mpiAllReduce_def allgather_def
          nLocalFluidInterfacePhysicalNodes_of_def physicalNodes_def assms)
  ultimately show ?thesis using m by blast
qed

theorem three_ranks_4_0_6_ranges_witness:
  "nNodes (plain_solver 4 0) \<noteq> 0 \<and> nPhysicalNodes (plain_solver 4 0) = 4
   \<and> nNodes (plain_solver 0 0) = 0 \<and> nPhysicalNodes (plain_solver 0 0) = 0
   \<and> nNodes (plain_solver 6 4) \<noteq> 0 \<and> nPhysicalNodes (plain_solver 6 4) = 6
   \<and> (2::nat) < 3
   \<and> map_sum id fluidGlobalIndexRange
        (Manager_init True
           [(Some (plain_solver 4 0), Some (plain_solver 4 0)), (Some (plain_solver 0 0), None),
            (Some (plain_solver 6 4), None)] 2) = Inr [(0, 3), (0, 0), (4, 9)]
   \<and> map_sum id nFluidInterfacePhysicalNodes
        (Manager_init True
           [(Some (plain_solver 4 0), Some (plain_solver 4 0)), (Some (plain_solver 0 0), None),
            (Some (plain_solver 6 4), None)] 2) = Inr 10"
  using three_ranks_4_0_6_ranges[of _ "plain_solver 4 0" "Some (plain_solver 4 0)"
          "plain_solver 0 0" None "plain_solver 6 4" None 2, OF refl]
  by auto

text \<open>
  C8. On a constructed manager, for either side, every rank \<open>r\<close> of the group and every
  local index \<open>k\<close> (so in particular for \<open>0 \<le> k < localPhysicalCount\<close>),
  \<open>getGlobalIndex\<close> returns the start of the stored range of \<open>r\<close> plus \<open>k\<close>. The result
  does not depend on the merged maps: no table is looked up. The accessor returns a value
  only; it has no manager to hand back.
\<close>

theorem getGlobalIndex_start_plus_local:
  assumes "Manager_init withMPI world rank = Inr self" and "rank < length world"
    and "r < mpiSize_of withMPI world"
  shows "getGlobalIndex self ''fluid'' (int r) k = Inr (fst (fluidGlobalIndexRange self ! r) + k)
       \<and> getGlobalIndex self ''solid'' (int r) k = Inr (fst (solidGlobalIndexRange self ! r) + k)
       \<and> getGlobalIndex (self\<lparr>fluidIndexing := f, solidIndexing := s\<rparr>) domain (int r) k
           = getGlobalIndex self domain (int r) k"
  using assms(3) range_lengths[of withMPI world rank]
  by (simp add: getGlobalIndex_def getGlobalIndex_in_fluid getGlobalIndex_in_solid
        Manager_init_fields(1,2)[OF assms(1)])

theorem getGlobalIndex_start_plus_local_witness:
  "(2::nat) < mpiSize_of True
        [(Some (plain_solver 4 0), Some (plain_solver 4 0)), (Some (plain_solver 0 0), None),
         (Some (plain_solver 6 4), None)]
   \<and> map_sum id (\<lambda>self. getGlobalIndex self ''fluid'' 2 5)
     (Manager_init True
        [(Some (plain_solver 4 0), Some (plain_solver 4 0)), (Some (plain_solver 0 0), None),
         (Some (plain_solver 6 4), None)] 0) = Inr (Inr 9)
   \<and> map_sum id (\<lambda>self. getGlobalIndex self ''solid'' 0 3)
     (Manager_init True
        [(Some (plain_solver 4 0), Some (plain_solver 4 0)), (Some (plain_solver 0 0), None),
         (Some (plain_solver 6 4), None)] 0) = Inr (Inr 3)"
proof -
  let ?W = "[(Some (plain_solver 4 0), Some (plain_solver 4 0)), (Some (plain_solver 0 0), None),
         (Some (plain_solver 6 4), None)]"
  have sz: "(2::nat) < mpiSize_of True ?W" "(0::nat) < mpiSize_of True ?W"
    by (simp_all add: mpiSize_of_def)
  obtain m where m: "Manager_init True ?W 0 = Inr m"
    using Manager_init_succeeds[of 0 ?W True] by (auto simp: haveSolver_def)
  have f: "fst (fluidGlobalIndexRange m ! 2) = 4"
    unfolding Manager_init_fields(1)[OF m]
    by (simp add: fluidGlobalIndexRange_of_def allgather_def fluid_range_temp haveInterface_def
          physicalNodes_def)
  have s: "fst (solidGlobalIndexRange m ! 0) = 0"
    unfolding Manager_init_fields(2)[OF m]
    by (simp add: solidGlobalIndexRange_of_def allgather_def solid_range_temp haveInterface_def
          physicalNodes_def)
  show ?thesis
    using getGlobalIndex_start_plus_local[OF m _ sz(1), of 5, THEN conjunct1]
          getGlobalIndex_start_plus_local[OF m _ sz(2), of 3, THEN conjunct2, THEN conjunct1] sz(1)
    by (simp only: m) (simp add: f s)
qed

text \<open>
  C9, as stated, fails: a fluid collaborator with two vertices, identifiers 0 and 1, and
  the halo identifier 999 is accepted, and the halo set is stored as it came.
\<close>

theorem halo_id_out_of_bound_accepted:
  "map_sum id (\<lambda>m. (nLocalFluidInterfaceNodes m, dom (fluidHaloNodesList m ! 0)))
     (Manager_init True [(Some (halo_solver 2 2 0 999), None)] 0) = Inr (2, {999})"
proof -
  obtain m where m: "Manager_init True [(Some (halo_solver 2 2 0 999), None)] 0 = Inr m"
    using Manager_init_succeeds[of 0 "[(Some (halo_solver 2 2 0 999), None)]" True]
    by (auto simp: haveSolver_def)
  have "fluidHaloNodesList m ! 0 = [999 \<mapsto> 0]"
    unfolding Manager_init_fields(13)[OF m]
    by (simp add: fluidHaloNodesList_of_def allgather_def haloNodes_def)
  moreover have "nLocalFluidInterfaceNodes m = 2"
    using m unfolding Manager_init_def Let_def
    by (auto simp: nLocalInterfaceNodes_def split: if_splits sum.splits)
  ultimately show ?thesis by (simp only: m) simp
qed

text \<open>
  C9, amended. Construction checks no halo identifier against any bound. It completes
  exactly when, with a communicator, every rank passes a fluid collaborator, and without
  one, the process passes both collaborators and their physical counts fit a signed
  64-bit integer; the contents of the halo sets play no part, and replacing them never
  changes whether construction completes.
\<close>

theorem construction_fails_only_on_absent_collaborators:
  assumes "rank < length world"
  shows "((\<exists>m. Manager_init withMPI world rank = Inr m) =
          (if withMPI then list_all (\<lambda>p. haveSolver (fst p)) world
           else haveSolver (fst (world ! rank)) \<and> haveSolver (snd (world ! rank))
                \<and> int64 (physicalNodes (fst (world ! rank)))
                \<and> int64 (physicalNodes (snd (world ! rank)))))
       \<and> ((\<exists>m. Manager_init withMPI
                  (map (\<lambda>p. (map_option (haloNodeList_update hf) (fst p),
                              map_option (haloNodeList_update hs) (snd p))) world) rank = Inr m) =
          (\<exists>m. Manager_init withMPI world rank = Inr m))"
proof -
  let ?world' = "map (\<lambda>p. (map_option (haloNodeList_update hf) (fst p),
                            map_option (haloNodeList_update hs) (snd p))) world"
  have r: "rank < length ?world'" using assms by simp
  have "(\<exists>m. Manager_init withMPI ?world' rank = Inr m) =
        (if withMPI then list_all (\<lambda>p. haveSolver (fst p)) world
         else haveSolver (fst (world ! rank)) \<and> haveSolver (snd (world ! rank))
              \<and> int64 (physicalNodes (fst (world ! rank)))
              \<and> int64 (physicalNodes (snd (world ! rank))))"
    unfolding Manager_init_Inr_iff[OF r] using assms
    by (simp add: list_all_iff haveSolver_map_option physicalNodes_halo_update)
  then show ?thesis unfolding Manager_init_Inr_iff[OF assms] by simp
qed

theorem construction_fails_only_on_absent_collaborators_witness:
  "(0::nat) < length [(Some (halo_solver 2 2 0 999), None)]
   \<and> \<not> isl (Manager_init True [(Some (halo_solver 2 2 0 999), None)] 0)
   \<and> isl (Manager_init True [(None, Some (plain_solver 2 0))] 0)
   \<and> \<not> isl (Manager_init False
               [(Some (halo_solver 2 2 0 999), Some (plain_solver 2 100))] 0)
   \<and> isl (Manager_init False
             [(Some \<lparr>nNodes = 2, nPhysicalNodes = 2 ^ 63, haloNodeList = Map.empty,
                     getNodalIndex = (\<lambda>i. i)\<rparr>, Some (plain_solver 2 100))] 0)"
proof -
  let ?A = "Manager_init True [(Some (halo_solver 2 2 0 999), None)] 0"
  let ?B = "Manager_init True [(None, Some (plain_solver 2 0))] 0"
  let ?C = "Manager_init False [(Some (halo_solver 2 2 0 999), Some (plain_solver 2 100))] 0"
  let ?D = "Manager_init False
              [(Some \<lparr>nNodes = 2, nPhysicalNodes = 2 ^ 63, haloNodeList = Map.empty,
                      getNodalIndex = (\<lambda>i. i)\<rparr>, Some (plain_solver 2 100))] 0"
  have "\<exists>m. ?A = Inr m"
    using construction_fails_only_on_absent_collaborators
            [of 0 "[(Some (halo_solver 2 2 0 999), None)]" True, THEN conjunct1]
    by (simp add: haveSolver_def)
  then have a: "\<not> isl ?A" by (cases ?A) simp_all
  have "\<not> (\<exists>m. ?B = Inr m)"
    using construction_fails_only_on_absent_collaborators
            [of 0 "[(None, Some (plain_solver 2 0))]" True, THEN conjunct1]
    by (simp add: haveSolver_def)
  then have b: "isl ?B" by (cases ?B) simp_all
  have "\<exists>m. ?C = Inr m"
    using construction_fails_only_on_absent_collaborators
            [of 0 "[(Some (halo_solver 2 2 0 999), Some (plain_solver 2 100))]" False,
             THEN conjunct1]
    by (simp add: haveSolver_def physicalNodes_def int64_def)
  then have c: "\<not> isl ?C" by (cases ?C) simp_all
  have "\<not> (\<exists>m. ?D = Inr m)"
    using construction_fails_only_on_absent_collaborators
            [of 0 "[(Some \<lparr>nNodes = 2, nPhysicalNodes = 2 ^ 63, haloNodeList = Map.empty,
                            getNodalIndex = (\<lambda>i. i)\<rparr>, Some (plain_solver 2 100))]" False,
             THEN conjunct1]
    by (simp add: haveSolver_def physicalNodes_def int64_def)
  then have d: "isl ?D" by (cases ?D) simp_all
  show ?thesis using a b c d by simp
qed

text \<open>
  C10. The VLM collaborator's \<open>getNodalIndex\<close> is injective on the non-negative vertex
  positions when the wing and the flap have at most 10000 vertices each: two distinct
  positions never receive the same solver-native identifier.
\<close>

theorem VLMSolver_getNodalIndex_injective:
  assumes "wing_nvert self \<le> 10000" and "flap_nvert self \<le> 10000"
    and "0 \<le> i" and "0 \<le> j" and "i \<noteq> j"
  shows "VLMSolver_getNodalIndex self i \<noteq> VLMSolver_getNodalIndex self j"
  using assms unfolding VLMSolver_getNodalIndex_def
  by (simp split: if_splits)

theorem VLMSolver_getNodalIndex_injective_witness:
  "wing_nvert \<lparr>wing_nvert = 3, flap_nvert = 2\<rparr> \<le> 10000
   \<and> flap_nvert \<lparr>wing_nvert = 3, flap_nvert = 2\<rparr> \<le> 10000
   \<and> (0::int) \<le> 3 \<and> (0::int) \<le> 4 \<and> (3::int) \<noteq> 4
   \<and> VLMSolver_getNodalIndex \<lparr>wing_nvert = 3, flap_nvert = 2\<rparr> 3 = 3
   \<and> VLMSolver_getNodalIndex \<lparr>wing_nvert = 3, flap_nvert = 2\<rparr> 4 = 10001
   \<and> VLMSolver_getNodalIndex \<lparr>wing_nvert = 3, flap_nvert = 2\<rparr> 3
       \<noteq> VLMSolver_getNodalIndex \<lparr>wing_nvert = 3, flap_nvert = 2\<rparr> 4"
  using VLMSolver_getNodalIndex_injective
          [of "\<lparr>wing_nvert = 3, flap_nvert = 2\<rparr>" 3 4]
  by (simp add: VLMSolver_getNodalIndex_def)

end
